theory Spec2Isabelle
  imports Main "HOL-Library.AList" "HOL-Library.Multiset"
begin

section \<open>Strings and host values\<close>

text \<open>
  JavaScript strings are modelled as \<open>string\<close> (a list of characters); the two string
  methods the sources use are \<open>endsWith\<close> and \<open>startsWith\<close>, with the receiver first.
\<close>

definition endsWith :: "string \<Rightarrow> string \<Rightarrow> bool" where
  "endsWith s suf = (length suf \<le> length s \<and> drop (length s - length suf) s = suf)"

definition startsWith :: "string \<Rightarrow> string \<Rightarrow> bool" where
  "startsWith s pre = (take (length pre) s = pre)"

text \<open>
  The argument a command handler receives is an arbitrary host value: the declared type
  \<open>string[]\<close> is not checked by the host. Only the shape that \<open>Array.isArray\<close> and
  \<open>typeof\<close> inspect matters here. An array is the list of its slots up to its
  \<open>length\<close>: a slot holds an element (\<open>Some\<close>) or is a hole (\<open>None\<close>), as in the
  literal \<open>[ , '/a']\<close>.
\<close>

datatype js_value =
    JUndefined
  | JNull
  | JBoolean bool
  | JNumber int
  | JString string
  | JArray "js_value option list"
  | JObject

fun isArray :: "js_value \<Rightarrow> bool" where
  "isArray (JArray _) = True"
| "isArray _ = False"

fun typeof_string :: "js_value \<Rightarrow> bool" where
  "typeof_string (JString _) = True"
| "typeof_string _ = False"

fun elements :: "js_value \<Rightarrow> js_value option list" where
  "elements (JArray slots) = slots"
| "elements _ = []"

text \<open>
  The array methods treat a hole each in its way: \<open>every\<close> does not call its predicate
  on a hole, \<open>map\<close> leaves a hole where it finds one, and \<open>for ... of\<close> reads a hole
  as \<open>undefined\<close>. So a value that the loops below handle is a string or
  \<open>undefined\<close>: \<open>Some s\<close> or \<open>None\<close>.
\<close>

definition every :: "('a \<Rightarrow> bool) \<Rightarrow> 'a option list \<Rightarrow> bool" where
  "every P slots = list_all (\<lambda>slot. case slot of None \<Rightarrow> True | Some v \<Rightarrow> P v) slots"

definition array_map :: "('a \<Rightarrow> 'b) \<Rightarrow> 'a option list \<Rightarrow> 'b option list" where
  "array_map f slots = map (map_option f) slots"

fun string_of :: "js_value \<Rightarrow> string" where
  "string_of (JString s) = s"
| "string_of _ = []"

section \<open>Document selectors (root-management.ts)\<close>

text \<open>
  A \<open>vscode.DocumentFilter\<close> has three optional fields; its \<open>pattern\<close> is a glob
  string or a relative pattern (a base and a glob). \<open>clangdDocumentSelector\<close> is declared
  in a module that is not part of the sources, so the live selector is a parameter of
  every function below. The command \<open>clangd.setRoots\<close> is modelled as
  root-management.ts registers it.
\<close>

datatype glob_pattern = GlobString string | RelativePattern string string

record DocumentFilter =
  language :: "string option"
  scheme :: "string option"
  pattern :: "glob_pattern option"

fun pattern_string :: "DocumentFilter \<Rightarrow> string option" where
  "pattern_string item =
     (case pattern item of Some (GlobString p) \<Rightarrow> Some p | _ \<Rightarrow> None)"

text \<open>\<open>getCurrentRoots\<close>: the string patterns of the filters tagged \<open>c\<close> or \<open>cpp\<close>.\<close>

fun getCurrentRoots :: "DocumentFilter list \<Rightarrow> string list" where
  "getCurrentRoots [] = []"
| "getCurrentRoots (item # selectors) =
     (if language item = Some ''c'' \<or> language item = Some ''cpp'' then
        (case pattern_string item of
           Some p \<Rightarrow> p # getCurrentRoots selectors
         | None \<Rightarrow> getCurrentRoots selectors)
      else getCurrentRoots selectors)"

text \<open>The template literal of \<open>compareCurrentAndDesiredRoots\<close>, for one root.\<close>

definition glob_of :: "string \<Rightarrow> string" where
  "glob_of root = (if endsWith root ''/'' then root else root @ ''/'') @ ''**/*''"

text \<open>
  A JavaScript \<open>Set\<close> is a duplicate-free list of values in insertion order, which is
  also the order in which \<open>for ... of\<close> visits it.
\<close>

definition set_add :: "'a \<Rightarrow> 'a list \<Rightarrow> 'a list" where
  "set_add x s = (if x \<in> set s then s else s @ [x])"

definition set_new :: "'a list \<Rightarrow> 'a list" where
  "set_new xs = fold set_add xs []"

definition set_has :: "'a list \<Rightarrow> 'a \<Rightarrow> bool" where
  "set_has s x = (x \<in> set s)"

definition set_delete :: "'a \<Rightarrow> 'a list \<Rightarrow> 'a list" where
  "set_delete x s = removeAll x s"

record delta =
  toAdds :: "string option list"
  toDeletes :: "string option list"

text \<open>
  The loop over \<open>withGlobs\<close>: the state is \<open>toAdds\<close> and the set \<open>current\<close>; \<open>glob\<close>
  is \<open>None\<close> where \<open>withGlobs\<close> has a hole.
\<close>

fun compare_loop ::
  "string option list \<Rightarrow> string option list \<Rightarrow> string option list \<Rightarrow> delta" where
  "compare_loop [] adds current = \<lparr>toAdds = adds, toDeletes = current\<rparr>"
| "compare_loop (glob # globs) adds current =
     compare_loop globs
       (if \<not> set_has current glob then adds @ [glob] else adds)
       (set_delete glob current)"

definition compareCurrentAndDesiredRoots ::
  "string option list \<Rightarrow> DocumentFilter list \<Rightarrow> delta" where
  "compareCurrentAndDesiredRoots newRoots selectors =
     (let withGlobs = array_map glob_of newRoots;
          current = set_new (map Some (getCurrentRoots selectors))
      in compare_loop withGlobs [] current)"

text \<open>\<open>findIndex\<close> returns \<open>None\<close> where JavaScript returns \<open>-1\<close>.\<close>

fun findIndex :: "('a \<Rightarrow> bool) \<Rightarrow> 'a list \<Rightarrow> nat option" where
  "findIndex P [] = None"
| "findIndex P (x # xs) =
     (if P x then Some 0 else map_option Suc (findIndex P xs))"

text \<open>\<open>splice(index, 1)\<close>.\<close>

definition splice1 :: "nat \<Rightarrow> 'a list \<Rightarrow> 'a list" where
  "splice1 i xs = take i xs @ drop (Suc i) xs"

text \<open>\<open>item.pattern === toDelete\<close>, and the pattern \<open>pattern: toAdd\<close> of a new rule.\<close>

definition has_pattern :: "string option \<Rightarrow> DocumentFilter \<Rightarrow> bool" where
  "has_pattern g item = (pattern item = map_option GlobString g)"

lemma findIndex_less: "findIndex P xs = Some i \<Longrightarrow> i < length xs"
  by (induction xs arbitrary: i) (auto split: if_splits)

text \<open>The inner \<open>while\<close> loop of \<open>reconcileSelectorsAndTargets\<close>, for one \<open>toDelete\<close>.\<close>

function delete_while :: "string option \<Rightarrow> DocumentFilter list \<Rightarrow> DocumentFilter list" where
  "delete_while toDelete selectors =
     (case findIndex (has_pattern toDelete) selectors of
        None \<Rightarrow> selectors
      | Some index \<Rightarrow> delete_while toDelete (splice1 index selectors))"
  by pat_completeness auto
termination
  by (relation "measure (\<lambda>(d, sel). length sel)")
     (auto simp: splice1_def dest: findIndex_less)

definition new_rules :: "string option \<Rightarrow> DocumentFilter list" where
  "new_rules toAdd =
     [\<lparr>language = Some ''c'', scheme = Some ''file'', pattern = map_option GlobString toAdd\<rparr>,
      \<lparr>language = Some ''cpp'', scheme = Some ''file'', pattern = map_option GlobString toAdd\<rparr>]"

fun push_all :: "string option list \<Rightarrow> DocumentFilter list \<Rightarrow> DocumentFilter list" where
  "push_all [] selectors = selectors"
| "push_all (toAdd # rest) selectors = push_all rest (selectors @ new_rules toAdd)"

definition reconcileSelectorsAndTargets ::
  "string option list \<Rightarrow> string option list \<Rightarrow> DocumentFilter list \<Rightarrow> DocumentFilter list" where
  "reconcileSelectorsAndTargets adds deletes selectors =
     push_all adds (fold delete_while deletes selectors)"

declare delete_while.simps [simp del]

section \<open>Restart coordination (root-management.ts)\<close>

text \<open>
  What a command invocation does to the outside: the four \<open>console.log\<close> messages of
  the module, the last one carrying the selector it prints, and
  \<open>vscode.commands.executeCommand('clangd.restart')\<close>.
\<close>

datatype effect =
    LogIncorrectArguments
  | LogNoChange
  | LogRestarting
  | ExecuteRestart
  | LogSelector "DocumentFilter list"

text \<open>
  \<open>waitForClientReady\<close> polls \<open>clangdContext.client\<close> every 500 ms and then awaits
  \<open>onReady()\<close>. What it sees depends on the rest of the extension, so the model runs it
  on the sequence of observations it makes, one per test of the loop condition: no
  client yet, or a client whose \<open>onReady()\<close> promise resolves, rejects or never settles.
  \<open>None\<close> is a wait that never completes.
\<close>

datatype ready_outcome = Resolves | Rejects | Unsettled

datatype client_obs = NoClient | Client ready_outcome

datatype completion = Returned | Threw

fun waitForClientReady :: "client_obs list \<Rightarrow> completion option" where
  "waitForClientReady [] = None"
| "waitForClientReady (NoClient # obs) = waitForClientReady obs"
| "waitForClientReady (Client Resolves # obs) = Some Returned"
| "waitForClientReady (Client Rejects # obs) = Some Threw"
| "waitForClientReady (Client Unsettled # obs) = None"

text \<open>
  The module state. The cancelation objects \<open>{canceled: ...}\<close> live in a store indexed
  by object identity; \<open>simpleCancelation\<close> is the module variable and holds the identity
  of the current object. Each invocation of the command has an identifier; \<open>waiting\<close>
  maps an invocation suspended at the \<open>await\<close> of \<open>restartCLangDSafely\<close> to its
  \<open>localCancelation\<close>. Every effect is recorded with the invocation that caused it.
\<close>

record rm_state =
  clangdDocumentSelector :: "DocumentFilter list"
  canceled :: "nat \<Rightarrow> bool"
  simpleCancelation :: nat
  next_object :: nat
  waiting :: "nat \<rightharpoonup> nat"
  effects :: "(nat \<times> effect) list"

text \<open>The module as loaded: \<open>let simpleCancelation = {canceled: false}\<close>.\<close>

definition initial_state :: "DocumentFilter list \<Rightarrow> rm_state" where
  "initial_state selectors =
     \<lparr>clangdDocumentSelector = selectors, canceled = (\<lambda>_. False), simpleCancelation = 0,
      next_object = 1, waiting = Map.empty, effects = []\<rparr>"

text \<open>\<open>restartCLangDSafely\<close> up to its \<open>await\<close>.\<close>

definition restartCLangDSafely_begin :: "nat \<Rightarrow> rm_state \<Rightarrow> rm_state" where
  "restartCLangDSafely_begin call s =
     (let s1 = s\<lparr>canceled := (canceled s)(simpleCancelation s := True)\<rparr>;
          localCancelation = next_object s1
      in s1\<lparr>canceled := (canceled s1)(localCancelation := False),
             simpleCancelation := localCancelation,
             next_object := Suc localCancelation,
             waiting := (waiting s1)(call \<mapsto> localCancelation)\<rparr>)"

text \<open>
  \<open>restartCLangDSafely\<close> from its \<open>await\<close> on, for the invocation \<open>call\<close> whose wait
  made the observations \<open>obs\<close>. A wait that never completes leaves the invocation
  suspended.
\<close>

definition restartCLangDSafely_resume :: "nat \<Rightarrow> client_obs list \<Rightarrow> rm_state \<Rightarrow> rm_state" where
  "restartCLangDSafely_resume call obs s =
     (case waiting s call of
        None \<Rightarrow> s
      | Some localCancelation \<Rightarrow>
          (case waitForClientReady obs of
             None \<Rightarrow> s
           | Some Threw \<Rightarrow> s\<lparr>waiting := (waiting s)(call := None)\<rparr>
           | Some Returned \<Rightarrow>
               if canceled s localCancelation
               then s\<lparr>waiting := (waiting s)(call := None)\<rparr>
               else s\<lparr>waiting := (waiting s)(call := None),
                      effects := effects s @
                        [(call, LogRestarting), (call, ExecuteRestart),
                         (call, LogSelector (clangdDocumentSelector s))]\<rparr>))"

section \<open>The command \<open>clangd.setRoots\<close> (root-management.ts)\<close>

text \<open>The handler up to the \<open>await\<close> inside \<open>restartCLangDSafely\<close>.\<close>

definition setRoots :: "nat \<Rightarrow> js_value \<Rightarrow> rm_state \<Rightarrow> rm_state" where
  "setRoots call newRoots s =
     (if \<not> isArray newRoots \<or> \<not> every typeof_string (elements newRoots) then
        s\<lparr>effects := effects s @ [(call, LogIncorrectArguments)]\<rparr>
      else
        let d = compareCurrentAndDesiredRoots (array_map string_of (elements newRoots))
                  (clangdDocumentSelector s);
            s1 = s\<lparr>clangdDocumentSelector :=
                     reconcileSelectorsAndTargets (toAdds d) (toDeletes d)
                       (clangdDocumentSelector s)\<rparr>
        in if toDeletes d \<noteq> [] \<or> toAdds d \<noteq> [] then restartCLangDSafely_begin call s1
           else s1\<lparr>effects := effects s1 @ [(call, LogNoChange)]\<rparr>)"

text \<open>The \<open>ExecuteRestart\<close> effects of a run, each with its invocation.\<close>

definition restarts :: "rm_state \<Rightarrow> nat list" where
  "restarts s = map fst (filter (\<lambda>e. snd e = ExecuteRestart) (effects s))"

text \<open>
  What happens to the module, in order: an invocation of the command with its argument,
  or the completion of the wait of an invocation.
\<close>

datatype command_event = SetRoots nat js_value | Settled nat "client_obs list"

fun step :: "command_event \<Rightarrow> rm_state \<Rightarrow> rm_state" where
  "step (SetRoots call newRoots) s = setRoots call newRoots s"
| "step (Settled call obs) s = restartCLangDSafely_resume call obs s"

definition run_commands :: "command_event list \<Rightarrow> rm_state \<Rightarrow> rm_state" where
  "run_commands events s = fold step events s"

section \<open>Workspace folders and the client registry (extension.ts)\<close>

text \<open>
  A \<open>WorkspaceFolder\<close> is an object of the host: \<open>ref\<close> is its identity (the registry
  is a \<open>Map\<close> keyed by the object) and \<open>uri\<close> is \<open>folder.uri.toString()\<close>. Of a
  \<open>TextDocument\<close> the handlers read the scheme and string of its URI and its language.
\<close>

record WorkspaceFolder =
  ref :: nat
  uri :: string

record TextDocument =
  document_uri :: string
  uri_scheme :: string
  languageId :: string

text \<open>
  What the handlers read from \<open>vscode.workspace\<close>, as it stands when a handler runs:
  the folder list (which may be undefined), the open documents,
  \<open>getWorkspaceFolder\<close> on a URI, and the value of the setting
  \<open>cpp.cppLanguageClient\<close> for a folder URI (\<open>None\<close> when it is not a string).
\<close>

record workspace =
  workspaceFolders :: "WorkspaceFolder list option"
  textDocuments :: "TextDocument list"
  getWorkspaceFolder :: "string \<Rightarrow> WorkspaceFolder option"
  cppLanguageClient :: "string \<Rightarrow> string option"

text \<open>
  The module state: \<open>clients\<close> is the \<open>Map\<close> from folder to client, in insertion order
  (\<open>map_of\<close> is \<open>get\<close>, \<open>AList.update\<close> is \<open>set\<close>, \<open>AList.delete\<close> is \<open>delete\<close>);
  a client is the number \<open>createClient\<close> gave it. \<open>running\<close> lists the clients that
  were started and not stopped since, each with the folder it was created for.
  \<open>sortedWorkspaceFolders_cache\<close> is the variable \<open>_sortedWorkspaceFolders\<close>.
\<close>

record ext_state =
  clients :: "(WorkspaceFolder \<times> nat) list"
  running :: "(nat \<times> WorkspaceFolder) list"
  next_client :: nat
  sortedWorkspaceFolders_cache :: "string list option"

definition activated :: ext_state where
  "activated = \<lparr>clients = [], running = [], next_client = 0,
                 sortedWorkspaceFolders_cache = None\<rparr>"

text \<open>
  A handler that throws keeps the changes it made before: \<open>TypeError\<close> carries the state
  at the throw.
\<close>

datatype 'a result = Normal 'a | TypeError 'a

fun state_of :: "'a result \<Rightarrow> 'a" where
  "state_of (Normal s) = s"
| "state_of (TypeError s) = s"

text \<open>The normalisation both functions apply: append \<open>/\<close> unless the last character is one.\<close>

definition with_separator :: "string \<Rightarrow> string" where
  "with_separator result = (if result = [] \<or> last result \<noteq> CHR ''/'' then result @ ''/'' else result)"

text \<open>\<open>sortedWorkspaceFolders\<close>: the cached list, computed when the cache is empty.\<close>

definition sorted_uris :: "workspace \<Rightarrow> string list" where
  "sorted_uris env =
     (case workspaceFolders env of
        Some folders \<Rightarrow> sort_key length (map (\<lambda>folder. with_separator (uri folder)) folders)
      | None \<Rightarrow> [])"

definition sortedWorkspaceFolders :: "workspace \<Rightarrow> ext_state \<Rightarrow> string list \<times> ext_state" where
  "sortedWorkspaceFolders env s =
     (case sortedWorkspaceFolders_cache s of
        Some cached \<Rightarrow> (cached, s)
      | None \<Rightarrow> (sorted_uris env, s\<lparr>sortedWorkspaceFolders_cache := Some (sorted_uris env)\<rparr>))"

text \<open>
  The loop of \<open>getOuterMostWorkspaceFolder\<close>. The result of
  \<open>vscode.workspace.getWorkspaceFolder(Uri.parse(element))!\<close> is returned as it is:
  \<open>None\<close> is an undefined that the non-null assertion lets through.
\<close>

fun outermost_loop ::
  "(string \<Rightarrow> WorkspaceFolder option) \<Rightarrow> string list \<Rightarrow> WorkspaceFolder \<Rightarrow> WorkspaceFolder option" where
  "outermost_loop resolve [] folder = Some folder"
| "outermost_loop resolve (element # rest) folder =
     (if startsWith (with_separator (uri folder)) element then resolve element
      else outermost_loop resolve rest folder)"

definition getOuterMostWorkspaceFolder ::
  "workspace \<Rightarrow> WorkspaceFolder \<Rightarrow> ext_state \<Rightarrow> WorkspaceFolder option \<times> ext_state" where
  "getOuterMostWorkspaceFolder env folder s =
     (case sortedWorkspaceFolders env s of
        (uris, s1) \<Rightarrow> (outermost_loop (getWorkspaceFolder env) uris folder, s1))"

text \<open>
  \<open>createClient\<close>, \<open>clients.set\<close> and \<open>client.start()\<close>, the three statements every
  handler runs together; and \<open>client.stop()\<close>. What the handlers print with
  \<open>console.log\<close> is left out.
\<close>

definition create_and_start :: "WorkspaceFolder \<Rightarrow> ext_state \<Rightarrow> ext_state" where
  "create_and_start folder s =
     (let client = next_client s
      in s\<lparr>clients := AList.update folder client (clients s),
            running := running s @ [(client, folder)],
            next_client := Suc client\<rparr>)"

definition stop :: "nat \<Rightarrow> ext_state \<Rightarrow> ext_state" where
  "stop client s = s\<lparr>running := filter (\<lambda>(c, folder). c \<noteq> client) (running s)\<rparr>"

definition didOpenTextDocument :: "workspace \<Rightarrow> TextDocument \<Rightarrow> ext_state \<Rightarrow> ext_state result" where
  "didOpenTextDocument env document s =
     (if uri_scheme document \<noteq> ''file'' \<and> uri_scheme document \<noteq> ''untitled'' then Normal s
      else if \<not> List.member [''cpp'', ''c'', ''cuda'', ''objective-c'', ''objective-cpp'']
                  (languageId document) then Normal s
      else
        (case getWorkspaceFolder env (document_uri document) of
           None \<Rightarrow> Normal s
         | Some folder0 \<Rightarrow>
             (case getOuterMostWorkspaceFolder env folder0 s of
                (None, s1) \<Rightarrow> TypeError s1
              | (Some folder, s1) \<Rightarrow>
                  let clientRequest = cppLanguageClient env (uri folder)
                  in if clientRequest \<noteq> Some ''any'' \<and> clientRequest \<noteq> Some ''compile''
                     then Normal s1
                     else if map_of (clients s1) folder = None
                          then Normal (create_and_start folder s1)
                          else Normal s1)))"

text \<open>\<open>documents.forEach(didOpenTextDocument)\<close>: a throw ends the iteration.\<close>

fun forEach_didOpen :: "workspace \<Rightarrow> TextDocument list \<Rightarrow> ext_state \<Rightarrow> ext_state result" where
  "forEach_didOpen env [] s = Normal s"
| "forEach_didOpen env (document # documents) s =
     (case didOpenTextDocument env document s of
        Normal s1 \<Rightarrow> forEach_didOpen env documents s1
      | TypeError s1 \<Rightarrow> TypeError s1)"

text \<open>
  The handlers are asynchronous. At \<open>await client.stop()\<close> and \<open>await deactivate()\<close> a
  handler is suspended, and other handlers run before it goes on. A continuation is
  what is left of a suspended handler: the folder whose client it stopped and the
  folders its loop has still to visit, or what follows \<open>deactivate()\<close>. A stretch of a
  handler between two suspensions ends by returning, by throwing, or at the next
  \<open>await\<close>.
\<close>

datatype continuation =
    ConfigurationLoop WorkspaceFolder "WorkspaceFolder list"
  | AfterDeactivate
  | RemovedLoop "WorkspaceFolder list" "WorkspaceFolder list"

datatype progress =
    Finished ext_state
  | Thrown ext_state
  | Suspended ext_state continuation

fun state_after :: "progress \<Rightarrow> ext_state" where
  "state_after (Finished s) = s"
| "state_after (Thrown s) = s"
| "state_after (Suspended s k) = s"

fun of_result :: "ext_state result \<Rightarrow> progress" where
  "of_result (Normal s) = Finished s"
| "of_result (TypeError s) = Thrown s"

text \<open>
  The handler of \<open>onDidChangeWorkspaceFolders\<close>. The listener registered at module level
  runs first and clears the cache. The loop over \<open>event.removed\<close> deletes the entry of a
  folder, calls \<open>client.stop()\<close> and awaits it; the loop over \<open>event.added\<close> has no
  \<open>await\<close>.
\<close>

definition folder_added :: "workspace \<Rightarrow> WorkspaceFolder \<Rightarrow> ext_state \<Rightarrow> ext_state" where
  "folder_added env folder s =
     (let clientRequest = cppLanguageClient env (uri folder)
      in if clientRequest \<noteq> Some ''any'' \<and> clientRequest \<noteq> Some ''compile'' then
           (if map_of (clients s) folder = None then create_and_start folder s else s)
         else s)"

fun removed_loop ::
  "workspace \<Rightarrow> WorkspaceFolder list \<Rightarrow> WorkspaceFolder list \<Rightarrow> ext_state \<Rightarrow> progress" where
  "removed_loop env [] added s = Finished (fold (folder_added env) added s)"
| "removed_loop env (folder # rest) added s =
     (case map_of (clients s) folder of
        Some client \<Rightarrow>
          Suspended (stop client (s\<lparr>clients := AList.delete folder (clients s)\<rparr>))
            (RemovedLoop rest added)
      | None \<Rightarrow> removed_loop env rest added s)"

definition onDidChangeWorkspaceFolders ::
  "workspace \<Rightarrow> WorkspaceFolder list \<Rightarrow> WorkspaceFolder list \<Rightarrow> ext_state \<Rightarrow> progress" where
  "onDidChangeWorkspaceFolders env removed added s =
     removed_loop env removed added (s\<lparr>sortedWorkspaceFolders_cache := None\<rparr>)"

text \<open>\<open>deactivate\<close>: stop every registered client, then clear the registry.\<close>

definition deactivate :: "ext_state \<Rightarrow> ext_state" where
  "deactivate s = (fold stop (map snd (clients s)) s)\<lparr>clients := []\<rparr>"

text \<open>
  The handler of \<open>onDidChangeConfiguration\<close>; the two flags are
  \<open>e.affectsConfiguration('cpp')\<close> and \<open>e.affectsConfiguration('clangd')\<close>. Iterating
  an undefined folder list throws. \<open>client_to_stop\<close> is the test of the loop body: the
  client of the folder, when the setting is neither value and the registry has one.
  The loop calls \<open>client.stop()\<close> and awaits it, and deletes the entry of the folder
  only when it goes on; \<open>configuration_loop\<close> is the handler from a point of its loop
  on, with the call of \<open>didOpenTextDocument\<close> on every open document that follows the
  loop.
\<close>

definition client_to_stop :: "workspace \<Rightarrow> WorkspaceFolder \<Rightarrow> ext_state \<Rightarrow> nat option" where
  "client_to_stop env folder s =
     (let clientRequest = cppLanguageClient env (uri folder)
      in if clientRequest \<noteq> Some ''any'' \<and> clientRequest \<noteq> Some ''compile'' \<and>
            map_of (clients s) folder \<noteq> None
         then map_of (clients s) folder
         else None)"

fun configuration_loop :: "workspace \<Rightarrow> WorkspaceFolder list \<Rightarrow> ext_state \<Rightarrow> progress" where
  "configuration_loop env [] s = of_result (forEach_didOpen env (textDocuments env) s)"
| "configuration_loop env (folder # rest) s =
     (case client_to_stop env folder s of
        Some client \<Rightarrow> Suspended (stop client s) (ConfigurationLoop folder rest)
      | None \<Rightarrow> configuration_loop env rest s)"

definition onDidChangeConfiguration :: "workspace \<Rightarrow> bool \<Rightarrow> bool \<Rightarrow> ext_state \<Rightarrow> progress" where
  "onDidChangeConfiguration env affects_cpp affects_clangd s =
     (if affects_cpp then
        (case workspaceFolders env of
           None \<Rightarrow> Thrown s
         | Some folders \<Rightarrow> configuration_loop env folders s)
      else if affects_clangd then Suspended (deactivate s) AfterDeactivate
      else Finished s)"

text \<open>
  A suspended handler goes on, in the workspace as it stands then: the configuration
  loop deletes the entry of the folder and visits the folders that are left.
\<close>

fun resume :: "workspace \<Rightarrow> continuation \<Rightarrow> ext_state \<Rightarrow> progress" where
  "resume env (ConfigurationLoop folder rest) s =
     configuration_loop env rest (s\<lparr>clients := AList.delete folder (clients s)\<rparr>)"
| "resume env AfterDeactivate s = of_result (forEach_didOpen env (textDocuments env) s)"
| "resume env (RemovedLoop rest added) s = removed_loop env rest added s"

text \<open>
  The extension in its host: the module state, and the suspended handlers, each under
  the number it got when it was first suspended. An event of the host comes with the
  workspace as it stands when the handler runs; \<open>Resumed n\<close> is the completion of what
  the suspended handler \<open>n\<close> awaits.
\<close>

record host =
  extension :: ext_state
  suspended :: "(nat \<times> continuation) list"
  next_handler :: nat

definition started :: host where
  "started = \<lparr>extension = activated, suspended = [], next_handler = 0\<rparr>"

datatype event =
    DidOpen TextDocument
  | OpenAll
  | FoldersChanged "WorkspaceFolder list" "WorkspaceFolder list"
  | ConfigurationChanged bool bool
  | Deactivate
  | Resumed nat

fun settle :: "progress \<Rightarrow> host \<Rightarrow> host" where
  "settle (Finished s) h = h\<lparr>extension := s\<rparr>"
| "settle (Thrown s) h = h\<lparr>extension := s\<rparr>"
| "settle (Suspended s k) h =
     h\<lparr>extension := s, suspended := suspended h @ [(next_handler h, k)],
       next_handler := Suc (next_handler h)\<rparr>"

fun handle :: "workspace \<times> event \<Rightarrow> host \<Rightarrow> host" where
  "handle (env, DidOpen document) h =
     settle (of_result (didOpenTextDocument env document (extension h))) h"
| "handle (env, OpenAll) h =
     settle (of_result (forEach_didOpen env (textDocuments env) (extension h))) h"
| "handle (env, FoldersChanged removed added) h =
     settle (onDidChangeWorkspaceFolders env removed added (extension h)) h"
| "handle (env, ConfigurationChanged affects_cpp affects_clangd) h =
     settle (onDidChangeConfiguration env affects_cpp affects_clangd (extension h)) h"
| "handle (env, Deactivate) h = settle (Finished (deactivate (extension h))) h"
| "handle (env, Resumed n) h =
     (case map_of (suspended h) n of
        None \<Rightarrow> h
      | Some k \<Rightarrow>
          settle (resume env k (extension h)) (h\<lparr>suspended := AList.delete n (suspended h)\<rparr>))"

definition run :: "(workspace \<times> event) list \<Rightarrow> host \<Rightarrow> host" where
  "run events h = fold handle events h"

text \<open>The running clients that were created for a folder.\<close>

definition clients_of :: "ext_state \<Rightarrow> WorkspaceFolder \<Rightarrow> nat list" where
  "clients_of s folder = map fst (filter (\<lambda>(c, f). f = folder) (running s))"

section \<open>The client class (extension.ts)\<close>

text \<open>
  Modelled from the spec: the base class \<open>vscodelc.LanguageClient\<close>, its \<open>start()\<close>
  and the \<open>Disposable\<close> that \<open>start()\<close> returns are not part of the sources. The spec
  says that starting launches the server process, and that stopping is idempotent:
  disposing an already-stopped supervisor is a no-op, not an error. The model keeps the
  state of the server process and counts the stop requests that reach it.
\<close>

datatype process = NotStarted | Launched | Stopped

datatype Disposable = StartDisposable

record ClangdLanguageClient =
  startDisposable :: "Disposable option"
  server :: process
  stop_requests :: nat

definition start :: "ClangdLanguageClient \<Rightarrow> Disposable \<times> ClangdLanguageClient" where
  "start this = (StartDisposable, this\<lparr>server := Launched\<rparr>)"

definition disposable_dispose :: "Disposable \<Rightarrow> ClangdLanguageClient \<Rightarrow> ClangdLanguageClient" where
  "disposable_dispose d this =
     (if server this = Launched
      then this\<lparr>server := Stopped, stop_requests := Suc (stop_requests this)\<rparr>
      else this)"

text \<open>
  The two methods of \<open>ClangdLanguageClient\<close>, from the sources. Calling a method of an
  undefined field throws; \<open>dispose\<close> tests the field before the call.
\<close>

datatype exception = UndefinedMember

fun call_dispose :: "Disposable option \<Rightarrow> ClangdLanguageClient \<Rightarrow> exception + ClangdLanguageClient" where
  "call_dispose None this = Inl UndefinedMember"
| "call_dispose (Some d) this = Inr (disposable_dispose d this)"

definition dispose :: "ClangdLanguageClient \<Rightarrow> exception + ClangdLanguageClient" where
  "dispose this =
     (if startDisposable this \<noteq> None then call_dispose (startDisposable this) this
      else Inr this)"

definition activate :: "ClangdLanguageClient \<Rightarrow> exception + ClangdLanguageClient" where
  "activate this =
     (case dispose this of
        Inl e \<Rightarrow> Inl e
      | Inr this1 \<Rightarrow>
          (case start this1 of (d, this2) \<Rightarrow> Inr (this2\<lparr>startDisposable := Some d\<rparr>)))"

definition constructed :: ClangdLanguageClient where
  "constructed = \<lparr>startDisposable = None, server = NotStarted, stop_requests = 0\<rparr>"

section \<open>Notions used in the statements\<close>

text \<open>A filter survives the deletion loops when none of the deleted globs is its pattern.\<close>

definition keeps :: "string option list \<Rightarrow> DocumentFilter \<Rightarrow> bool" where
  "keeps ds item = (\<not> list_ex (\<lambda>d. has_pattern d item) ds)"

text \<open>
  One reconciliation, as the command performs it: compute the delta for the roots \<open>D\<close>
  and apply it to the live selector. An array of strings without holes is \<open>map Some\<close> of
  the list of its elements.
\<close>

definition reconcile_step ::
  "string option list \<Rightarrow> DocumentFilter list \<Rightarrow> DocumentFilter list" where
  "reconcile_step D selectors =
     (let d = compareCurrentAndDesiredRoots D selectors
      in reconcileSelectorsAndTargets (toAdds d) (toDeletes d) selectors)"

text \<open>A glob that ends with exactly one separator followed by \<open>**/*\<close>.\<close>

definition single_separator_glob :: "string \<Rightarrow> bool" where
  "single_separator_glob g = (endsWith g ''/**/*'' \<and> \<not> endsWith g ''//**/*'')"

text \<open>
  Two restart requests in succession: \<open>r1\<close> is issued, the selector becomes
  \<open>selectors2\<close> (the reconciliation of the second command), and \<open>r2\<close> is issued while
  \<open>r1\<close> is still waiting.
\<close>

definition two_requests :: "nat \<Rightarrow> nat \<Rightarrow> DocumentFilter list \<Rightarrow> rm_state \<Rightarrow> rm_state" where
  "two_requests r1 r2 selectors2 s =
     restartCLangDSafely_begin r2
       ((restartCLangDSafely_begin r1 s)\<lparr>clangdDocumentSelector := selectors2\<rparr>)"

text \<open>
  The values of the setting \<open>cpp.cppLanguageClient\<close> under which the mechanism owns a
  folder.
\<close>

definition owned :: "string option \<Rightarrow> bool" where
  "owned clientRequest = (clientRequest = Some ''any'' \<or> clientRequest = Some ''compile'')"

text \<open>
  The cache of sorted folder URIs is empty or holds the list for the current folders;
  the listener that clears it on every folder change keeps it so.
\<close>

definition cache_current :: "workspace \<Rightarrow> ext_state \<Rightarrow> bool" where
  "cache_current env s =
     (sortedWorkspaceFolders_cache s = None \<or>
      sortedWorkspaceFolders_cache s = Some (sorted_uris env))"

text \<open>
  A workspace for the examples: the folders \<open>/ws/pkg\<close> and \<open>/ws\<close>, in this order, and
  a host that resolves a URI to the innermost of the two that contains it.
\<close>

definition example_workspace :: "string \<Rightarrow> workspace" where
  "example_workspace setting =
     \<lparr>workspaceFolders = Some [\<lparr>ref = 1, uri = ''/ws/pkg''\<rparr>, \<lparr>ref = 0, uri = ''/ws''\<rparr>],
      textDocuments =
        [\<lparr>document_uri = ''/ws/pkg/sub/x.cpp'', uri_scheme = ''file'', languageId = ''cpp''\<rparr>],
      getWorkspaceFolder =
        (\<lambda>u. if startsWith u ''/ws/pkg/'' then Some \<lparr>ref = 1, uri = ''/ws/pkg''\<rparr>
             else if startsWith u ''/ws/'' then Some \<lparr>ref = 0, uri = ''/ws''\<rparr>
             else None),
      cppLanguageClient = (\<lambda>u. Some setting)\<rparr>"

text \<open>
  The cancelation objects are in order: every object in use was allocated, and of the
  objects that waiting invocations hold only the current one is not canceled.
\<close>

definition tokens_in_order :: "rm_state \<Rightarrow> bool" where
  "tokens_in_order s =
     (simpleCancelation s < next_object s \<and>
      (\<forall>r a. waiting s r = Some a \<longrightarrow>
         a < next_object s \<and> (a \<noteq> simpleCancelation s \<longrightarrow> canceled s a)))"

section \<open>The reconciliation loops\<close>

text \<open>The \<open>while\<close> loop with \<open>findIndex\<close> and \<open>splice\<close> removes every filter with the pattern.\<close>

lemma findIndex_None: "findIndex P xs = None \<Longrightarrow> filter (\<lambda>x. \<not> P x) xs = xs"
  by (induction xs) (auto split: if_splits)

lemma findIndex_splice:
  "findIndex P xs = Some i \<Longrightarrow> filter (\<lambda>x. \<not> P x) (splice1 i xs) = filter (\<lambda>x. \<not> P x) xs"
  by (induction xs arbitrary: i) (auto simp: splice1_def split: if_splits)

lemma delete_while_filter:
  "delete_while d sel = filter (\<lambda>item. \<not> has_pattern d item) sel"
proof (induction d sel rule: delete_while.induct)
  case (1 d sel)
  show ?case
  proof (cases "findIndex (has_pattern d) sel")
    case None
    then show ?thesis by (simp add: delete_while.simps [of d sel] findIndex_None)
  next
    case (Some i)
    with 1 show ?thesis by (simp add: delete_while.simps [of d sel] findIndex_splice)
  qed
qed

lemma fold_delete_while:
  "fold delete_while ds sel = filter (keeps ds) sel"
  by (induction ds arbitrary: sel) (auto simp: keeps_def delete_while_filter intro: filter_cong)

lemma push_all_append: "push_all adds sel = sel @ concat (map new_rules adds)"
  by (induction adds arbitrary: sel) auto

lemma reconcile_eq:
  "reconcileSelectorsAndTargets adds dels sel = filter (keeps dels) sel @ concat (map new_rules adds)"
  by (simp add: reconcileSelectorsAndTargets_def push_all_append fold_delete_while)

lemma getCurrentRoots_append:
  "getCurrentRoots (xs @ ys) = getCurrentRoots xs @ getCurrentRoots ys"
  by (induction xs) (auto split: option.splits)

lemma getCurrentRoots_new_rules:
  "getCurrentRoots (concat (map new_rules adds)) =
     concat (map (\<lambda>g. case g of Some p \<Rightarrow> [p, p] | None \<Rightarrow> []) adds)"
  by (induction adds) (auto simp: new_rules_def split: option.splits)

lemma set_getCurrentRoots_new_rules:
  "Some ` set (getCurrentRoots (concat (map new_rules adds))) = set adds - {None}"
  by (induction adds) (auto simp: new_rules_def getCurrentRoots_append split: option.splits)

lemma set_getCurrentRoots_filter:
  "Some ` set (getCurrentRoots (filter (keeps ds) sel)) = Some ` set (getCurrentRoots sel) - set ds"
proof (induction sel)
  case Nil
  then show ?case by simp
next
  case (Cons item sel)
  show ?case
  proof (cases "pattern item")
    case None
    with Cons show ?thesis by simp
  next
    case (Some p)
    show ?thesis
    proof (cases p)
      case (GlobString g)
      have k: "keeps ds item = (Some g \<notin> set ds)"
        using Some GlobString
        by (auto simp: keeps_def has_pattern_def list_ex_iff map_option_case split: option.splits)
      from Cons Some GlobString k show ?thesis by auto
    next
      case (RelativePattern b g)
      with Cons Some show ?thesis by simp
    qed
  qed
qed

lemma set_set_add: "set (set_add x s) = insert x (set s)"
  by (auto simp: set_add_def)

lemma set_fold_set_add: "set (fold set_add xs s) = set xs \<union> set s"
  by (induction xs arbitrary: s) (auto simp: set_set_add)

lemma set_set_new: "set (set_new xs) = set xs"
  by (simp add: set_new_def set_fold_set_add)

lemma distinct_fold_set_add: "distinct s \<Longrightarrow> distinct (fold set_add xs s)"
  by (induction xs arbitrary: s) (auto simp: set_add_def)

lemma distinct_set_new: "distinct (set_new xs)"
  by (simp add: set_new_def distinct_fold_set_add)

lemma removeAll_as_filter: "removeAll g cur = filter (\<lambda>c. c \<noteq> g) cur"
  by (induction cur) auto

lemma toDeletes_compare_loop:
  "toDeletes (compare_loop gs adds cur) = filter (\<lambda>c. c \<notin> set gs) cur"
proof (induction gs arbitrary: adds cur)
  case Nil
  then show ?case by simp
next
  case (Cons g gs)
  have "toDeletes (compare_loop (g # gs) adds cur) =
        filter (\<lambda>c. c \<notin> set gs) (filter (\<lambda>c. c \<noteq> g) cur)"
    by (simp add: Cons.IH set_delete_def removeAll_as_filter)
  also have "\<dots> = filter (\<lambda>c. c \<notin> set (g # gs)) cur"
    by (auto intro: filter_cong)
  finally show ?case .
qed

lemma toAdds_compare_loop_subset:
  "set (toAdds (compare_loop gs adds cur)) \<subseteq> set adds \<union> set gs"
proof (induction gs arbitrary: adds cur)
  case Nil
  then show ?case by simp
next
  case (Cons g gs)
  show ?case
    using Cons.IH [of "adds @ [g]" "set_delete g cur"] Cons.IH [of adds "set_delete g cur"]
    by (auto split: if_splits)
qed

lemma toAdds_compare_loop_keeps:
  "set adds \<subseteq> set (toAdds (compare_loop gs adds cur))"
proof (induction gs arbitrary: adds cur)
  case Nil
  then show ?case by simp
next
  case (Cons g gs)
  show ?case
    using Cons.IH [of "adds @ [g]" "set_delete g cur"] Cons.IH [of adds "set_delete g cur"]
    by (auto split: if_splits)
qed

lemma toAdds_compare_loop_missing:
  "set gs - set cur \<subseteq> set (toAdds (compare_loop gs adds cur))"
proof (induction gs arbitrary: adds cur)
  case Nil
  then show ?case by simp
next
  case (Cons g gs)
  show ?case
    using Cons.IH [of "set_delete g cur" "adds @ [g]"] Cons.IH [of "set_delete g cur" adds]
      toAdds_compare_loop_keeps [of "adds @ [g]" gs "set_delete g cur"]
    by (auto simp: set_has_def set_delete_def split: if_splits)
qed

lemma toAdds_compare_loop_distinct:
  "distinct gs \<Longrightarrow> set gs \<subseteq> set cur \<Longrightarrow> toAdds (compare_loop gs adds cur) = adds"
proof (induction gs arbitrary: adds cur)
  case Nil
  then show ?case by simp
next
  case (Cons g gs)
  from Cons.prems have "set gs \<subseteq> set (set_delete g cur)"
    by (auto simp: set_delete_def)
  with Cons.prems Cons.IH [of "set_delete g cur" adds] show ?case
    by (simp add: set_has_def)
qed

lemma count_toAdds_compare_loop:
  "g \<notin> set cur \<Longrightarrow>
   count_list (toAdds (compare_loop gs adds cur)) g = count_list adds g + count_list gs g"
  by (induction gs arbitrary: adds cur) (auto simp: set_has_def set_delete_def)

lemma set_roots_reconcile_step:
  "Some ` set (getCurrentRoots (reconcile_step R sel)) = set (array_map glob_of R) - {None}"
proof -
  let ?gs = "array_map glob_of R"
  let ?cur = "set_new (map Some (getCurrentRoots sel))"
  let ?d = "compare_loop ?gs [] ?cur"
  have del: "set (toDeletes ?d) = Some ` set (getCurrentRoots sel) - set ?gs"
    by (auto simp: toDeletes_compare_loop set_set_new)
  have add1: "set (toAdds ?d) \<subseteq> set ?gs"
    using toAdds_compare_loop_subset [of ?gs "[]" ?cur] by simp
  have add2: "set ?gs - Some ` set (getCurrentRoots sel) \<subseteq> set (toAdds ?d)"
    using toAdds_compare_loop_missing [of ?gs ?cur "[]"] by (simp add: set_set_new)
  have "Some ` set (getCurrentRoots (reconcile_step R sel)) =
        (Some ` set (getCurrentRoots sel) - set (toDeletes ?d)) \<union> (set (toAdds ?d) - {None})"
    by (simp add: reconcile_step_def compareCurrentAndDesiredRoots_def Let_def reconcile_eq
        getCurrentRoots_append image_Un set_getCurrentRoots_new_rules set_getCurrentRoots_filter)
  with del add1 add2 show ?thesis by auto
qed

lemma array_map_dense [simp]: "array_map f (map Some xs) = map Some (map f xs)"
  by (simp add: array_map_def)

lemma distinct_map_Some: "distinct (map Some xs) = distinct xs"
  by (simp add: distinct_map)

lemma count_list_map_Some: "count_list (map Some xs) (Some x) = count_list xs x"
  by (induction xs) auto

lemma Some_eq_map_option: "(Some y = map_option f z) = (\<exists>x. z = Some x \<and> f x = y)"
  by (cases z) auto

lemma eval_glob_a: "glob_of ''/a'' = ''/a/**/*''"
  by (simp add: glob_of_def endsWith_def)

section \<open>String suffixes\<close>

lemma endsWith_iff: "endsWith s suf = (\<exists>p. s = p @ suf)"
proof
  assume "endsWith s suf"
  then have "s = take (length s - length suf) s @ suf"
    by (metis append_take_drop_id endsWith_def)
  then show "\<exists>p. s = p @ suf" ..
next
  assume "\<exists>p. s = p @ suf"
  then show "endsWith s suf" by (auto simp: endsWith_def)
qed

lemma endsWith_append_same [simp]: "endsWith (xs @ ys) (zs @ ys) = endsWith xs zs"
  by (auto simp: endsWith_iff)

lemma endsWith_self_append [simp]: "endsWith (xs @ ys) ys"
  by (auto simp: endsWith_iff)

lemma glob_of_suffix: "endsWith (glob_of root) ''/**/*''"
proof (cases "endsWith root ''/''")
  case True
  then obtain p where "root = p @ ''/''" by (auto simp: endsWith_iff)
  then show ?thesis
    using endsWith_self_append [of p "''/**/*''"] True by (simp add: glob_of_def)
next
  case False
  then show ?thesis
    using endsWith_self_append [of root "''/**/*''"] by (simp add: glob_of_def)
qed


lemma endsWith_snoc_snoc [simp]: "endsWith (xs @ [c]) (zs @ [d]) = (c = d \<and> endsWith xs zs)"
  by (auto simp: endsWith_iff)

lemma endsWith_Nil [simp]: "endsWith s []"
  by (simp add: endsWith_def)

lemma endsWith_Nil_left [simp]: "endsWith [] suf = (suf = [])"
  by (auto simp: endsWith_def)

lemma single_separator_iff:
  "single_separator_glob (glob_of root) = (\<not> endsWith root ''//'')"
proof (cases root rule: rev_cases)
  case Nil
  then show ?thesis
    by (simp add: single_separator_glob_def glob_of_def endsWith_def)
next
  case (snoc r c)
  have two: "endsWith root ''//'' = (c = CHR ''/'' \<and> endsWith r ''/'')"
    using endsWith_snoc_snoc [of r c "''/''" "CHR ''/''"] snoc by simp
  have one: "endsWith root ''/'' = (c = CHR ''/'')"
    using endsWith_snoc_snoc [of r c "[]" "CHR ''/''"] snoc by simp
  show ?thesis
  proof (cases "c = CHR ''/''")
    case True
    have g: "glob_of root = r @ ''/**/*''"
      using True snoc one by (simp add: glob_of_def)
    have "endsWith (r @ ''/**/*'') ''//**/*'' = endsWith r ''/''"
      using endsWith_append_same [of r "''/**/*''" "''/''"] by simp
    moreover have "endsWith (r @ ''/**/*'') ''/**/*''"
      by (rule endsWith_self_append)
    ultimately show ?thesis
      unfolding single_separator_glob_def g two using True by simp
  next
    case False
    have g: "glob_of root = root @ ''/**/*''"
      using False one by (simp add: glob_of_def)
    have "endsWith (root @ ''/**/*'') ''//**/*'' = endsWith root ''/''"
      using endsWith_append_same [of root "''/**/*''" "''/''"] by simp
    moreover have "endsWith (root @ ''/**/*'') ''/**/*''"
      by (rule endsWith_self_append)
    ultimately show ?thesis
      unfolding single_separator_glob_def g two one using False by simp
  qed
qed

section \<open>The command and the restart\<close>

text \<open>What passes the test of the handler: an array whose slots are holes or strings.\<close>

lemma string_array_shape:
  "isArray v \<Longrightarrow> every typeof_string (elements v) \<Longrightarrow>
   \<exists>slots. v = JArray (map (map_option JString) slots)"
proof (cases v)
  case (JArray vs)
  assume "every typeof_string (elements v)"
  with JArray have "every typeof_string vs" by simp
  then have "\<exists>slots. vs = map (map_option JString) slots"
  proof (induction vs)
    case Nil
    then show ?case by simp
  next
    case (Cons x xs)
    then obtain slots where "xs = map (map_option JString) slots" by (auto simp: every_def)
    moreover from Cons.prems obtain t where "x = map_option JString t"
    proof (cases x)
      case None
      then have "x = map_option JString None" by simp
      with that show ?thesis .
    next
      case (Some v)
      with Cons.prems obtain u where "v = JString u" by (cases v) (auto simp: every_def)
      with Some have "x = map_option JString (Some u)" by simp
      with that show ?thesis .
    qed
    ultimately have "x # xs = map (map_option JString) (t # slots)" by simp
    then show ?case ..
  qed
  with JArray show ?thesis by simp
qed simp_all

lemma every_strings: "every typeof_string (map (map_option JString) slots)"
  by (induction slots) (auto simp: every_def split: option.splits)

lemma array_map_string_of: "array_map string_of (map (map_option JString) slots) = slots"
  by (induction slots) (auto simp: array_map_def option.map_comp o_def option.map_ident)

lemma count_list_array_map_None: "count_list (array_map f slots) None = count_list slots None"
  by (induction slots) (auto simp: array_map_def)

lemma count_list_filter:
  "count_list (filter P xs) x = (if P x then count_list xs x else 0)"
  by (induction xs) auto

lemma count_list_new_rules:
  "count_list (concat (map new_rules adds))
     \<lparr>language = Some ''c'', scheme = Some ''file'', pattern = None\<rparr> = count_list adds None"
  by (induction adds) (auto simp: new_rules_def)

lemma toDeletes_current: "set (toDeletes (compare_loop gs adds cur)) \<subseteq> set cur"
  by (auto simp: toDeletes_compare_loop)

lemma setRoots_rejects_failed_test:
  assumes "\<nexists>slots. newRoots = JArray (map (map_option JString) slots)"
  shows "setRoots call newRoots s = s\<lparr>effects := effects s @ [(call, LogIncorrectArguments)]\<rparr>"
proof -
  from assms have "\<not> isArray newRoots \<or> \<not> every typeof_string (elements newRoots)"
    using string_array_shape by blast
  then show ?thesis by (auto simp: setRoots_def)
qed

lemma selector_begin [simp]:
  "clangdDocumentSelector (restartCLangDSafely_begin c s) = clangdDocumentSelector s"
  by (simp add: restartCLangDSafely_begin_def Let_def)

lemma effects_begin [simp]:
  "effects (restartCLangDSafely_begin c s) = effects s"
  by (simp add: restartCLangDSafely_begin_def Let_def)

lemma selector_resume [simp]:
  "clangdDocumentSelector (restartCLangDSafely_resume c obs s) = clangdDocumentSelector s"
  by (simp add: restartCLangDSafely_resume_def split: option.splits completion.splits)

lemma resume_after_begin:
  "waitForClientReady obs = Some Returned \<Longrightarrow>
   effects (restartCLangDSafely_resume c obs (restartCLangDSafely_begin c s)) =
     effects s @ [(c, LogRestarting), (c, ExecuteRestart), (c, LogSelector (clangdDocumentSelector s))]"
  by (simp add: restartCLangDSafely_resume_def restartCLangDSafely_begin_def Let_def)

lemma setRoots_empty_selector:
  "clangdDocumentSelector (setRoots c (JArray []) s) = reconcile_step [] (clangdDocumentSelector s)"
  by (simp add: setRoots_def Let_def reconcile_step_def every_def array_map_def)

lemma setRoots_single_selector:
  "clangdDocumentSelector (setRoots c (JArray [Some (JString root)]) s) =
     reconcile_step [Some root] (clangdDocumentSelector s)"
  by (simp add: setRoots_def Let_def reconcile_step_def every_def array_map_def)

lemma setRoots_empty_unfold:
  "setRoots c (JArray []) s =
     (let d = compareCurrentAndDesiredRoots [] (clangdDocumentSelector s);
          s1 = s\<lparr>clangdDocumentSelector :=
                   reconcileSelectorsAndTargets (toAdds d) (toDeletes d)
                     (clangdDocumentSelector s)\<rparr>
      in if toDeletes d \<noteq> [] \<or> toAdds d \<noteq> [] then restartCLangDSafely_begin c s1
         else s1\<lparr>effects := effects s1 @ [(c, LogNoChange)]\<rparr>)"
  by (simp add: setRoots_def every_def array_map_def)

lemma filter_keeps_all:
  "\<not> list_ex (has_pattern g) sel \<Longrightarrow> filter (keeps [g]) sel = sel"
  by (induction sel) (auto simp: keeps_def)

lemma set_new_Nil [simp]: "set_new [] = []"
  by (simp add: set_new_def)

lemma resume_stale:
  "waiting s r = Some a \<Longrightarrow> canceled s a \<Longrightarrow>
   restartCLangDSafely_resume r obs s = s \<or>
   restartCLangDSafely_resume r obs s = s\<lparr>waiting := (waiting s)(r := None)\<rparr>"
  by (simp add: restartCLangDSafely_resume_def split: option.splits completion.splits)

lemma two_requests_fields:
  "r1 \<noteq> r2 \<Longrightarrow> waiting (two_requests r1 r2 sel2 s) r1 = Some (next_object s)"
  "waiting (two_requests r1 r2 sel2 s) r2 = Some (Suc (next_object s))"
  "canceled (two_requests r1 r2 sel2 s) (next_object s)"
  "\<not> canceled (two_requests r1 r2 sel2 s) (Suc (next_object s))"
  "effects (two_requests r1 r2 sel2 s) = effects s"
  "clangdDocumentSelector (two_requests r1 r2 sel2 s) = sel2"
  by (simp_all add: two_requests_def restartCLangDSafely_begin_def Let_def)

lemma rejected_wait_no_restart:
  "waitForClientReady obs2 = Some Threw \<Longrightarrow>
   effects (restartCLangDSafely_resume r2 obs2 (restartCLangDSafely_begin r2 s)) = effects s"
  by (simp add: restartCLangDSafely_resume_def restartCLangDSafely_begin_def Let_def)

section \<open>Repeated globs\<close>

lemma toAdds_accumulate:
  "toAdds (compare_loop gs adds cur) = adds @ toAdds (compare_loop gs [] cur)"
proof (induction gs arbitrary: adds cur)
  case Nil
  then show ?case by simp
next
  case (Cons g gs)
  show ?case
    using Cons.IH [of "adds @ [g]" "set_delete g cur"] Cons.IH [of adds "set_delete g cur"]
      Cons.IH [of "[g]" "set_delete g cur"]
    by simp
qed

lemma toAdds_repeated:
  "\<not> distinct gs \<Longrightarrow> toAdds (compare_loop gs adds cur) \<noteq> adds"
proof (induction gs arbitrary: adds cur)
  case Nil
  then show ?case by simp
next
  case (Cons g gs)
  show ?case
  proof (cases "g \<in> set gs")
    case True
    then have "g \<in> set gs - set (set_delete g cur)" by (simp add: set_delete_def)
    then have "g \<in> set (toAdds (compare_loop gs [] (set_delete g cur)))"
      using toAdds_compare_loop_missing [of gs "set_delete g cur" "[]"] by blast
    then have "toAdds (compare_loop gs [] (set_delete g cur)) \<noteq> []" by auto
    then show ?thesis
      using toAdds_accumulate [of gs "adds @ [g]" "set_delete g cur"]
        toAdds_accumulate [of gs adds "set_delete g cur"]
      by auto
  next
    case False
    with Cons.prems have nd: "\<not> distinct gs" by simp
    have "toAdds (compare_loop gs [] (set_delete g cur)) \<noteq> []"
      using Cons.IH [OF nd, of "[]" "set_delete g cur"] by simp
    then show ?thesis
      using toAdds_accumulate [of gs "adds @ [g]" "set_delete g cur"]
        toAdds_accumulate [of gs adds "set_delete g cur"]
      by auto
  qed
qed

section \<open>The cancelation objects along a run\<close>

lemma in_order_initial: "tokens_in_order (initial_state selectors)"
  by (simp add: tokens_in_order_def initial_state_def)

lemma in_order_selector [simp]:
  "tokens_in_order (s\<lparr>clangdDocumentSelector := x\<rparr>) = tokens_in_order s"
  by (simp add: tokens_in_order_def)

lemma in_order_effects [simp]:
  "tokens_in_order (s\<lparr>effects := x\<rparr>) = tokens_in_order s"
  by (simp add: tokens_in_order_def)

lemma in_order_begin:
  "tokens_in_order s \<Longrightarrow> tokens_in_order (restartCLangDSafely_begin call s)"
  by (fastforce simp: tokens_in_order_def restartCLangDSafely_begin_def Let_def less_Suc_eq)

lemma in_order_resume:
  "tokens_in_order s \<Longrightarrow> tokens_in_order (restartCLangDSafely_resume call obs s)"
  by (auto simp: tokens_in_order_def restartCLangDSafely_resume_def
      split: option.splits completion.splits if_splits)

lemma in_order_setRoots:
  "tokens_in_order s \<Longrightarrow> tokens_in_order (setRoots call newRoots s)"
  by (auto simp: setRoots_def Let_def in_order_begin)

lemma in_order_step: "tokens_in_order s \<Longrightarrow> tokens_in_order (step e s)"
  by (cases e) (simp_all add: in_order_setRoots in_order_resume)

lemma in_order_run: "tokens_in_order s \<Longrightarrow> tokens_in_order (run_commands events s)"
  unfolding run_commands_def by (induction events arbitrary: s) (auto simp: in_order_step)

lemma superseded_is_silent:
  assumes "waiting (run_commands events (initial_state selectors)) r = Some a"
    and "a \<noteq> simpleCancelation (run_commands events (initial_state selectors))"
  shows "effects (restartCLangDSafely_resume r obs (run_commands events (initial_state selectors))) =
         effects (run_commands events (initial_state selectors))"
proof -
  let ?t = "run_commands events (initial_state selectors)"
  have "tokens_in_order ?t" by (rule in_order_run [OF in_order_initial])
  with assms have "canceled ?t a" by (auto simp: tokens_in_order_def)
  with assms(1) show ?thesis
    using resume_stale [of ?t r a obs] by auto
qed

section \<open>The outermost folder\<close>

lemma outermost_loop_find:
  "outermost_loop resolve uris folder =
     (case find (startsWith (with_separator (uri folder))) uris of
        None \<Rightarrow> Some folder
      | Some element \<Rightarrow> resolve element)"
  by (induction uris) auto

lemma sorted_find_shortest:
  "sorted (map length xs) \<Longrightarrow> find P xs = Some x \<Longrightarrow> y \<in> set xs \<Longrightarrow> P y \<Longrightarrow> length x \<le> length y"
  by (induction xs) (auto split: if_splits)

lemma sorted_uris_sorted: "sorted (map length (sorted_uris env))"
  by (simp add: sorted_uris_def split: option.splits)

lemma set_sorted_uris:
  "workspaceFolders env = Some folders \<Longrightarrow>
   set (sorted_uris env) = (\<lambda>folder. with_separator (uri folder)) ` set folders"
  by (simp add: sorted_uris_def)

lemma sortedWorkspaceFolders_current:
  "cache_current env s \<Longrightarrow> fst (sortedWorkspaceFolders env s) = sorted_uris env"
  "cache_current env s \<Longrightarrow> cache_current env (snd (sortedWorkspaceFolders env s))"
  by (auto simp: cache_current_def sortedWorkspaceFolders_def split: option.splits)

lemma mset_sorted_uris:
  "mset (sorted_uris env) =
     mset (map (\<lambda>folder. with_separator (uri folder))
            (case workspaceFolders env of Some folders \<Rightarrow> folders | None \<Rightarrow> []))"
  by (simp add: sorted_uris_def split: option.splits)

lemma with_separator_endsWith:
  "with_separator u = (if endsWith u ''/'' then u else u @ ''/'')"
proof (cases u rule: rev_cases)
  case Nil
  then show ?thesis by (simp add: with_separator_def endsWith_def)
next
  case (snoc r c)
  have "endsWith (r @ [c]) ''/'' = (c = CHR ''/'')"
    using endsWith_snoc_snoc [of r c "[]" "CHR ''/''"] by simp
  with snoc show ?thesis by (simp add: with_separator_def)
qed

lemma startsWith_iff: "startsWith a b = (\<exists>r. a = b @ r)"
proof
  assume "startsWith a b"
  then have "a = b @ drop (length b) a"
    by (metis append_take_drop_id startsWith_def)
  then show "\<exists>r. a = b @ r" ..
next
  assume "\<exists>r. a = b @ r"
  then show "startsWith a b" by (auto simp: startsWith_def)
qed

section \<open>The handlers\<close>

lemma sortedWorkspaceFolders_state:
  "snd (sortedWorkspaceFolders env s) = s \<or>
   snd (sortedWorkspaceFolders env s) = s\<lparr>sortedWorkspaceFolders_cache := Some (sorted_uris env)\<rparr>"
  by (simp add: sortedWorkspaceFolders_def split: option.splits)

lemma getOuterMost_state:
  "getOuterMostWorkspaceFolder env folder s = (r, s1) \<Longrightarrow>
   s1 = s \<or> s1 = s\<lparr>sortedWorkspaceFolders_cache := Some (sorted_uris env)\<rparr>"
  using sortedWorkspaceFolders_state [of env s]
  by (auto simp: getOuterMostWorkspaceFolder_def split: prod.splits)

lemma didOpen_creates_when_absent:
  "running (state_of (didOpenTextDocument env document s)) = running s \<or>
   (\<exists>folder. map_of (clients s) folder = None \<and>
      running (state_of (didOpenTextDocument env document s)) =
        running s @ [(next_client s, folder)])"
  by (auto simp: didOpenTextDocument_def create_and_start_def Let_def
      split: option.splits prod.splits dest!: getOuterMost_state)

lemma folder_added_creates_when_absent:
  "running (folder_added env folder s) = running s \<or>
   (map_of (clients s) folder = None \<and>
      running (folder_added env folder s) = running s @ [(next_client s, folder)])"
  by (auto simp: folder_added_def create_and_start_def Let_def)

text \<open>A folder change that finds no client to stop runs to its end at once.\<close>

lemma removed_loop_no_client:
  "list_all (\<lambda>folder. map_of (clients s) folder = None) removed \<Longrightarrow>
   removed_loop env removed added s = Finished (fold (folder_added env) added s)"
  by (induction removed) auto

text \<open>The listener that clears the cache makes it current for whatever folders follow.\<close>

lemma cache_folder_added [simp]:
  "sortedWorkspaceFolders_cache (fold (folder_added env) fs t) = sortedWorkspaceFolders_cache t"
  by (induction fs arbitrary: t) (simp_all add: folder_added_def create_and_start_def Let_def)

lemma cache_removed_loop:
  "sortedWorkspaceFolders_cache (state_after (removed_loop env removed added s)) =
   sortedWorkspaceFolders_cache s"
  by (induction removed) (auto simp: stop_def split: option.splits)

lemma cache_after_folder_change:
  "cache_current env' (state_after (onDidChangeWorkspaceFolders env removed added s))"
  by (simp add: cache_current_def onDidChangeWorkspaceFolders_def cache_removed_loop)

text \<open>Every stretch of a handler keeps the cache current for the workspace it runs in.\<close>

lemma cache_didOpen:
  "cache_current env s \<Longrightarrow> cache_current env (state_of (didOpenTextDocument env document s))"
  by (auto simp: didOpenTextDocument_def cache_current_def create_and_start_def Let_def
      split: option.splits prod.splits dest!: getOuterMost_state)

lemma cache_forEach:
  "cache_current env s \<Longrightarrow> cache_current env (state_of (forEach_didOpen env documents s))"
proof (induction documents arbitrary: s)
  case Nil
  then show ?case by simp
next
  case (Cons d ds)
  from Cons.prems have "cache_current env (state_of (didOpenTextDocument env d s))"
    by (rule cache_didOpen)
  with Cons.IH show ?case
    by (cases "didOpenTextDocument env d s") auto
qed

lemma cache_stop [simp]: "cache_current env (stop c s) = cache_current env s"
  by (simp add: cache_current_def stop_def)

lemma state_after_of_result [simp]: "state_after (of_result r) = state_of r"
  by (cases r) simp_all

lemma cache_configuration_loop:
  "cache_current env s \<Longrightarrow> cache_current env (state_after (configuration_loop env folders s))"
  by (induction folders) (auto simp: cache_forEach split: option.splits)

lemma cache_deactivate: "cache_current env s \<Longrightarrow> cache_current env (deactivate s)"
proof -
  have "sortedWorkspaceFolders_cache (fold stop cs t) = sortedWorkspaceFolders_cache t" for cs t
    by (induction cs arbitrary: t) (simp_all add: stop_def)
  then show "cache_current env s \<Longrightarrow> cache_current env (deactivate s)"
    by (simp add: cache_current_def deactivate_def)
qed

lemma cache_resume:
  "cache_current env s \<Longrightarrow> cache_current env (state_after (resume env k s))"
proof (cases k)
  case (ConfigurationLoop folder rest)
  assume "cache_current env s"
  then have "cache_current env (s\<lparr>clients := AList.delete folder (clients s)\<rparr>)"
    by (simp add: cache_current_def)
  with ConfigurationLoop show ?thesis by (simp add: cache_configuration_loop)
next
  case AfterDeactivate
  assume "cache_current env s"
  with AfterDeactivate show ?thesis by (simp add: cache_forEach)
next
  case (RemovedLoop rest added)
  assume "cache_current env s"
  with RemovedLoop show ?thesis by (simp add: cache_current_def cache_removed_loop)
qed

lemma extension_settle [simp]: "extension (settle p h) = state_after p"
  by (cases p) simp_all

lemma cache_handle:
  assumes "cache_current env (extension h)"
  shows "cache_current env (extension (handle (env, ev) h))"
proof (cases ev)
  case (ConfigurationChanged affects_cpp affects_clangd)
  with assms show ?thesis
    by (auto simp: onDidChangeConfiguration_def cache_configuration_loop cache_deactivate
        split: option.splits)
next
  case (Resumed n)
  with assms show ?thesis
    by (auto simp: cache_resume split: option.splits)
qed (use assms in \<open>simp_all add: cache_didOpen cache_forEach cache_after_folder_change cache_deactivate\<close>)

section \<open>The example workspace\<close>

lemma example_sorted: "sorted_uris (example_workspace setting) = [''/ws/'', ''/ws/pkg/'']"
  by (simp add: sorted_uris_def example_workspace_def with_separator_def)

lemma example_resolve:
  "getWorkspaceFolder (example_workspace setting) ''/ws/'' = Some \<lparr>ref = 0, uri = ''/ws''\<rparr>"
  "getWorkspaceFolder (example_workspace setting) ''/ws/pkg/sub/x.cpp'' = Some \<lparr>ref = 1, uri = ''/ws/pkg''\<rparr>"
  by (simp_all add: example_workspace_def startsWith_def)

section \<open>The claims\<close>

text \<open>
  Claim C1 does not hold of the handler: it tests the setting the wrong way round. For
  an added folder without a registered client the handler creates and starts a client
  exactly when the setting is neither \<open>any\<close> nor \<open>compile\<close>, and does nothing but
  clear the cache of sorted URIs when it is one of the two. \<open>didOpenTextDocument\<close>
  returns early under the very test that guards the creation here.
\<close>

theorem added_folder_test_is_inverted:
  assumes "map_of (clients s) folder = None"
  shows "onDidChangeWorkspaceFolders env [] [folder] s =
           Finished
             (if owned (cppLanguageClient env (uri folder))
              then s\<lparr>sortedWorkspaceFolders_cache := None\<rparr>
              else create_and_start folder (s\<lparr>sortedWorkspaceFolders_cache := None\<rparr>))"
  using assms by (simp add: onDidChangeWorkspaceFolders_def folder_added_def owned_def Let_def)

theorem added_folder_test_is_inverted_witness:
  "map_of (clients activated) \<lparr>ref = 0, uri = ''/ws''\<rparr> = None \<and>
   onDidChangeWorkspaceFolders (example_workspace ''any'') [] [\<lparr>ref = 0, uri = ''/ws''\<rparr>] activated =
     Finished activated \<and>
   running (state_after (onDidChangeWorkspaceFolders (example_workspace ''off'') []
              [\<lparr>ref = 0, uri = ''/ws''\<rparr>] activated)) = [(0, \<lparr>ref = 0, uri = ''/ws''\<rparr>)] \<and>
   running (state_of (didOpenTextDocument (example_workspace ''any'')
      \<lparr>document_uri = ''/ws/pkg/sub/x.cpp'', uri_scheme = ''file'', languageId = ''cpp''\<rparr>
      activated)) = [(0, \<lparr>ref = 0, uri = ''/ws''\<rparr>)]"
proof -
  have h: "map_of (clients activated) \<lparr>ref = 0, uri = ''/ws''\<rparr> = None"
    by (simp add: activated_def)
  have d: "running (state_of (didOpenTextDocument (example_workspace ''any'')
      \<lparr>document_uri = ''/ws/pkg/sub/x.cpp'', uri_scheme = ''file'', languageId = ''cpp''\<rparr>
      activated)) = [(0, \<lparr>ref = 0, uri = ''/ws''\<rparr>)]"
    by (simp add: activated_def didOpenTextDocument_def example_workspace_def
      getOuterMostWorkspaceFolder_def sortedWorkspaceFolders_def sorted_uris_def
      with_separator_def startsWith_def create_and_start_def Let_def)
  from h d added_folder_test_is_inverted [OF h, of "example_workspace ''any''"]
    added_folder_test_is_inverted [OF h, of "example_workspace ''off''"]
  show ?thesis
    by (simp add: example_workspace_def owned_def activated_def create_and_start_def Let_def)
qed

text \<open>
  Claim C2. Request \<open>r1\<close> is issued, then \<open>r2\<close> while \<open>r1\<close> still waits. Whatever
  \<open>r1\<close>'s wait observes, and in whichever order the two waits complete, \<open>r1\<close> adds no
  effect at all, and once \<open>r2\<close>'s own readiness wait has returned the effects are those
  of exactly one restart, \<open>r2\<close>'s, printing the selector of \<open>r2\<close>. In general,
  resuming an invocation whose cancelation object is marked canceled logs nothing,
  executes nothing, and leaves the selector and the cancelation objects as they are;
  and after any sequence of commands and completed waits, an invocation that waits
  with a cancelation object other than the current one (a later request was issued)
  adds no effect when its wait completes.
\<close>

theorem superseded_restart_is_abandoned:
  assumes "r1 \<noteq> r2" and "waitForClientReady obs2 = Some Returned"
  shows "effects (restartCLangDSafely_resume r1 obs1 (two_requests r1 r2 selectors2 s)) = effects s
       \<and> effects (restartCLangDSafely_resume r2 obs2
            (restartCLangDSafely_resume r1 obs1 (two_requests r1 r2 selectors2 s))) =
           effects s @ [(r2, LogRestarting), (r2, ExecuteRestart), (r2, LogSelector selectors2)]
       \<and> effects (restartCLangDSafely_resume r1 obs1
            (restartCLangDSafely_resume r2 obs2 (two_requests r1 r2 selectors2 s))) =
           effects s @ [(r2, LogRestarting), (r2, ExecuteRestart), (r2, LogSelector selectors2)]
       \<and> (waiting t r = Some a \<and> canceled t a \<longrightarrow>
            effects (restartCLangDSafely_resume r obs t) = effects t \<and>
            clangdDocumentSelector (restartCLangDSafely_resume r obs t) = clangdDocumentSelector t \<and>
            canceled (restartCLangDSafely_resume r obs t) = canceled t \<and>
            simpleCancelation (restartCLangDSafely_resume r obs t) = simpleCancelation t)
       \<and> (waiting (run_commands events (initial_state selectors)) r = Some a \<and>
          a \<noteq> simpleCancelation (run_commands events (initial_state selectors)) \<longrightarrow>
            effects (restartCLangDSafely_resume r obs (run_commands events (initial_state selectors))) =
            effects (run_commands events (initial_state selectors)))"
proof -
  let ?s2 = "two_requests r1 r2 selectors2 s"
  note f = two_requests_fields [of r1 r2 selectors2 s]
  have a: "effects (restartCLangDSafely_resume r1 obs1 ?s2) = effects s"
    using assms(1) f
    by (auto simp: restartCLangDSafely_resume_def split: option.splits completion.splits)
  have b: "effects (restartCLangDSafely_resume r2 obs2 (restartCLangDSafely_resume r1 obs1 ?s2)) =
           effects s @ [(r2, LogRestarting), (r2, ExecuteRestart), (r2, LogSelector selectors2)]"
    using assms f
    by (auto simp: restartCLangDSafely_resume_def split: option.splits completion.splits)
  have c: "effects (restartCLangDSafely_resume r1 obs1 (restartCLangDSafely_resume r2 obs2 ?s2)) =
           effects s @ [(r2, LogRestarting), (r2, ExecuteRestart), (r2, LogSelector selectors2)]"
    using assms f
    by (auto simp: restartCLangDSafely_resume_def split: option.splits completion.splits)
  have d: "waiting t r = Some a \<and> canceled t a \<longrightarrow>
            effects (restartCLangDSafely_resume r obs t) = effects t \<and>
            clangdDocumentSelector (restartCLangDSafely_resume r obs t) = clangdDocumentSelector t \<and>
            canceled (restartCLangDSafely_resume r obs t) = canceled t \<and>
            simpleCancelation (restartCLangDSafely_resume r obs t) = simpleCancelation t"
    using resume_stale [of t r a obs] by auto
  have e: "waiting (run_commands events (initial_state selectors)) r = Some a \<and>
          a \<noteq> simpleCancelation (run_commands events (initial_state selectors)) \<longrightarrow>
            effects (restartCLangDSafely_resume r obs (run_commands events (initial_state selectors))) =
            effects (run_commands events (initial_state selectors))"
    using superseded_is_silent [of events selectors r a obs] by blast
  from a b c d e show ?thesis by blast
qed

theorem superseded_restart_is_abandoned_witness:
  "(1::nat) \<noteq> 2 \<and> waitForClientReady [NoClient, Client Resolves] = Some Returned \<and>
   restarts (restartCLangDSafely_resume 2 [NoClient, Client Resolves]
     (restartCLangDSafely_resume 1 [Client Resolves]
       (two_requests 1 2 (new_rules (Some ''/b/**/*'')) (initial_state (new_rules (Some ''/a/**/*'')))))) = [2] \<and>
   restarts (restartCLangDSafely_resume 1 [Client Resolves]
     (restartCLangDSafely_resume 2 [NoClient, Client Resolves]
       (two_requests 1 2 (new_rules (Some ''/b/**/*'')) (initial_state (new_rules (Some ''/a/**/*'')))))) = [2] \<and>
   effects (restartCLangDSafely_resume 1 [Client Resolves]
       (two_requests 1 2 (new_rules (Some ''/b/**/*'')) (initial_state (new_rules (Some ''/a/**/*''))))) = [] \<and>
   waiting (two_requests 1 2 (new_rules (Some ''/b/**/*'')) (initial_state (new_rules (Some ''/a/**/*'')))) 1 =
     Some 1 \<and>
   canceled (two_requests 1 2 (new_rules (Some ''/b/**/*'')) (initial_state (new_rules (Some ''/a/**/*'')))) 1 \<and>
   waiting (run_commands [SetRoots 1 (JArray [Some (JString ''/a'')]), SetRoots 2 (JArray [Some (JString ''/b'')])]
              (initial_state [])) 1 = Some 1 \<and>
   simpleCancelation
     (run_commands [SetRoots 1 (JArray [Some (JString ''/a'')]), SetRoots 2 (JArray [Some (JString ''/b'')])]
        (initial_state [])) = 2 \<and>
   effects (restartCLangDSafely_resume 1 [Client Resolves]
     (run_commands [SetRoots 1 (JArray [Some (JString ''/a'')]), SetRoots 2 (JArray [Some (JString ''/b'')])]
        (initial_state []))) = []"
proof -
  let ?t = "two_requests 1 2 (new_rules (Some ''/b/**/*'')) (initial_state (new_rules (Some ''/a/**/*'')))"
  let ?es = "[SetRoots 1 (JArray [Some (JString ''/a'')]), SetRoots 2 (JArray [Some (JString ''/b'')])]"
  have h1: "(1::nat) \<noteq> 2" by simp
  have h2: "waitForClientReady [NoClient, Client Resolves] = Some Returned" by simp
  have e: "effects (initial_state (new_rules (Some ''/a/**/*''))) = []" by (simp add: initial_state_def)
  have n: "next_object (initial_state (new_rules (Some ''/a/**/*''))) = 1" by (simp add: initial_state_def)
  have t: "waiting ?t 1 = Some 1" "canceled ?t 1"
    using two_requests_fields(1,3) [of 1 2 "new_rules (Some ''/b/**/*'')" "initial_state (new_rules (Some ''/a/**/*''))"]
    by (simp_all add: n)
  have r: "waiting (run_commands ?es (initial_state [])) 1 = Some 1"
    "simpleCancelation (run_commands ?es (initial_state [])) = 2"
    "effects (run_commands ?es (initial_state [])) = []"
    by (simp_all add: run_commands_def setRoots_def compareCurrentAndDesiredRoots_def glob_of_def
        every_def array_map_def
        endsWith_def set_has_def set_delete_def set_new_def set_add_def reconcile_eq keeps_def
        new_rules_def
        has_pattern_def restartCLangDSafely_begin_def initial_state_def Let_def)
  from h1 h2 t r
    superseded_restart_is_abandoned [OF h1 h2, where ?obs1.0 = "[Client Resolves]"
      and ?selectors2.0 = "new_rules (Some ''/b/**/*'')" and s = "initial_state (new_rules (Some ''/a/**/*''))"
      and t = ?t and r = 1 and a = 1 and obs = "[Client Resolves]" and events = ?es
      and selectors = "[]"]
  show ?thesis
    by (simp add: e restarts_def)
qed

text \<open>
  Claim C3, as stated, fails: with the same root twice in the list, the second
  reconciliation of the same list asks to add the glob again.
\<close>

theorem reconcile_idempotent_counterexample:
  "compareCurrentAndDesiredRoots [Some ''/a'', Some ''/a'']
     (reconcile_step [Some ''/a'', Some ''/a''] []) =
     \<lparr>toAdds = [Some ''/a/**/*''], toDeletes = []\<rparr>"
  by (simp add: reconcile_step_def compareCurrentAndDesiredRoots_def Let_def reconcile_eq
      array_map_def eval_glob_a set_new_def set_add_def set_has_def set_delete_def new_rules_def
      keeps_def)

text \<open>
  Claim C3, amended. Reconciling the list \<open>D\<close> of strings, applying the delta and
  reconciling \<open>D\<close> again gives the empty delta exactly when the globs generated from
  \<open>D\<close> are pairwise distinct, whatever the live selector was.
\<close>

theorem reconcile_idempotent_distinct:
  "(compareCurrentAndDesiredRoots (map Some D) (reconcile_step (map Some D) selectors) =
      \<lparr>toAdds = [], toDeletes = []\<rparr>) = distinct (map glob_of D)"
proof
  assume e: "compareCurrentAndDesiredRoots (map Some D) (reconcile_step (map Some D) selectors) =
      \<lparr>toAdds = [], toDeletes = []\<rparr>"
  show "distinct (map glob_of D)"
  proof (rule ccontr)
    assume "\<not> distinct (map glob_of D)"
    then have "\<not> distinct (map Some (map glob_of D))" by (simp add: distinct_map_Some del: map_map)
    from toAdds_repeated [OF this, of "[]"
        "set_new (map Some (getCurrentRoots (reconcile_step (map Some D) selectors)))"]
    have "toAdds (compareCurrentAndDesiredRoots (map Some D)
            (reconcile_step (map Some D) selectors)) \<noteq> []"
      by (simp add: compareCurrentAndDesiredRoots_def)
    with e show False by simp
  qed
next
  let ?gs = "map Some (map glob_of D)"
  let ?cur = "set_new (map Some (getCurrentRoots (reconcile_step (map Some D) selectors)))"
  assume "distinct (map glob_of D)"
  then have d: "distinct ?gs" by (simp add: distinct_map_Some del: map_map)
  have cur: "set ?cur = set ?gs"
    using set_roots_reconcile_step [of "map Some D" selectors] by (auto simp: set_set_new)
  have a: "toAdds (compare_loop ?gs [] ?cur) = []"
    using d cur by (intro toAdds_compare_loop_distinct) auto
  have "toDeletes (compare_loop ?gs [] ?cur) = filter (\<lambda>c. c \<notin> set ?gs) ?cur"
    by (rule toDeletes_compare_loop)
  also have "\<dots> = []" using cur by (auto simp: filter_empty_conv)
  finally have b: "toDeletes (compare_loop ?gs [] ?cur) = []" .
  from a b show "compareCurrentAndDesiredRoots (map Some D)
      (reconcile_step (map Some D) selectors) = \<lparr>toAdds = [], toDeletes = []\<rparr>"
    by (simp add: compareCurrentAndDesiredRoots_def Let_def)
qed

theorem reconcile_idempotent_distinct_witness:
  "distinct (map glob_of [''/a'', ''/b'']) \<and>
   compareCurrentAndDesiredRoots [Some ''/a'', Some ''/b'']
     (reconcile_step [Some ''/a'', Some ''/b''] []) = \<lparr>toAdds = [], toDeletes = []\<rparr>"
proof -
  have d: "distinct (map glob_of [''/a'', ''/b''])"
    by (simp add: glob_of_def endsWith_def)
  from d reconcile_idempotent_distinct [of "[''/a'', ''/b'']" "[]"] show ?thesis by simp
qed

text \<open>
  Claim C4. Start from a selector with no managed rule and no filter carrying the glob
  of \<open>root\<close>. After \<open>setRoots([root])\<close> the selector has gained the two rules of
  \<open>root\<close>; the delta of the empty list is then: nothing to add, that glob to delete;
  \<open>setRoots([])\<close> gives back the selector of the start, and once the wait of that
  invocation has returned its effects are those of exactly one restart. In general the
  empty list adds nothing and leaves no managed rule in the selector.
\<close>

theorem setRoots_empty_clears:
  assumes none: "getCurrentRoots (clangdDocumentSelector s0) = []"
    and fresh: "\<not> list_ex (has_pattern (Some (glob_of root))) (clangdDocumentSelector s0)"
    and ready: "waitForClientReady obs2 = Some Returned"
  shows "clangdDocumentSelector (setRoots c1 (JArray [Some (JString root)]) s0) =
           clangdDocumentSelector s0 @ new_rules (Some (glob_of root))
       \<and> compareCurrentAndDesiredRoots []
           (clangdDocumentSelector (setRoots c1 (JArray [Some (JString root)]) s0)) =
           \<lparr>toAdds = [], toDeletes = [Some (glob_of root)]\<rparr>
       \<and> clangdDocumentSelector
           (setRoots c2 (JArray [])
             (restartCLangDSafely_resume c1 obs1
               (setRoots c1 (JArray [Some (JString root)]) s0))) =
           clangdDocumentSelector s0
       \<and> effects
           (restartCLangDSafely_resume c2 obs2
             (setRoots c2 (JArray [])
               (restartCLangDSafely_resume c1 obs1
                 (setRoots c1 (JArray [Some (JString root)]) s0)))) =
           effects (restartCLangDSafely_resume c1 obs1
                      (setRoots c1 (JArray [Some (JString root)]) s0)) @
           [(c2, LogRestarting), (c2, ExecuteRestart), (c2, LogSelector (clangdDocumentSelector s0))]
       \<and> toAdds (compareCurrentAndDesiredRoots [] (clangdDocumentSelector s)) = []
       \<and> getCurrentRoots (clangdDocumentSelector (setRoots c (JArray []) s)) = []"
proof -
  let ?g = "Some (glob_of root)"
  let ?sel0 = "clangdDocumentSelector s0"
  let ?s1 = "setRoots c1 (JArray [Some (JString root)]) s0"
  let ?s1r = "restartCLangDSafely_resume c1 obs1 ?s1"
  have d1: "compareCurrentAndDesiredRoots [Some root] ?sel0 = \<lparr>toAdds = [?g], toDeletes = []\<rparr>"
    by (simp add: compareCurrentAndDesiredRoots_def array_map_def none set_has_def set_delete_def)
  have sel1: "clangdDocumentSelector ?s1 = ?sel0 @ new_rules ?g"
    by (simp add: setRoots_single_selector reconcile_step_def d1 reconcile_eq keeps_def)
  have roots1: "getCurrentRoots (?sel0 @ new_rules ?g) = [glob_of root, glob_of root]"
    by (simp add: getCurrentRoots_append none new_rules_def)
  have d2: "compareCurrentAndDesiredRoots [] (?sel0 @ new_rules ?g) =
            \<lparr>toAdds = [], toDeletes = [?g]\<rparr>"
    by (simp add: compareCurrentAndDesiredRoots_def array_map_def roots1 set_new_def set_add_def)
  have keep: "filter (keeps [?g]) ?sel0 = ?sel0" "filter (keeps [?g]) (new_rules ?g) = []"
    using fresh by (simp_all add: filter_keeps_all new_rules_def keeps_def has_pattern_def)
  have step2: "setRoots c2 (JArray []) ?s1r =
               restartCLangDSafely_begin c2 (?s1r\<lparr>clangdDocumentSelector := ?sel0\<rparr>)"
    by (simp add: setRoots_empty_unfold [of c2 ?s1r] sel1 d2 reconcile_eq keep)
  have e: "effects (restartCLangDSafely_resume c2 obs2 (setRoots c2 (JArray []) ?s1r)) =
           effects ?s1r @
           [(c2, LogRestarting), (c2, ExecuteRestart), (c2, LogSelector ?sel0)]"
    unfolding step2 using resume_after_begin [OF ready] by simp
  have g1: "toAdds (compareCurrentAndDesiredRoots [] (clangdDocumentSelector s)) = []"
    by (simp add: compareCurrentAndDesiredRoots_def array_map_def)
  have "Some ` set (getCurrentRoots (reconcile_step [] (clangdDocumentSelector s))) = {}"
    using set_roots_reconcile_step [of "[]"] by (simp add: array_map_def)
  then have g2: "getCurrentRoots (clangdDocumentSelector (setRoots c (JArray []) s)) = []"
    by (simp add: setRoots_empty_selector)
  from sel1 d2 step2 e g1 g2 show ?thesis by simp
qed

theorem setRoots_empty_clears_witness:
  "getCurrentRoots (clangdDocumentSelector (initial_state [])) = [] \<and>
   \<not> list_ex (has_pattern (Some (glob_of ''/a''))) (clangdDocumentSelector (initial_state [])) \<and>
   waitForClientReady [NoClient, Client Resolves] = Some Returned \<and>
   clangdDocumentSelector (setRoots 1 (JArray [Some (JString ''/a'')]) (initial_state [])) =
     new_rules (Some ''/a/**/*'') \<and>
   clangdDocumentSelector
     (setRoots 2 (JArray [])
       (restartCLangDSafely_resume 1 [Client Resolves]
         (setRoots 1 (JArray [Some (JString ''/a'')]) (initial_state [])))) = [] \<and>
   restarts
     (restartCLangDSafely_resume 2 [NoClient, Client Resolves]
       (setRoots 2 (JArray [])
         (restartCLangDSafely_resume 1 [Client Resolves]
           (setRoots 1 (JArray [Some (JString ''/a'')]) (initial_state []))))) =
   restarts
     (restartCLangDSafely_resume 1 [Client Resolves]
       (setRoots 1 (JArray [Some (JString ''/a'')]) (initial_state []))) @ [2]"
proof -
  have h1: "getCurrentRoots (clangdDocumentSelector (initial_state [])) = []"
    by (simp add: initial_state_def)
  have h2: "\<not> list_ex (has_pattern (Some (glob_of ''/a''))) (clangdDocumentSelector (initial_state []))"
    by (simp add: initial_state_def)
  have h3: "waitForClientReady [NoClient, Client Resolves] = Some Returned" by simp
  have s0: "clangdDocumentSelector (initial_state []) = []" by (simp add: initial_state_def)
  from h1 h2 h3
    setRoots_empty_clears [OF h1 h2 h3, of 1 2 "[Client Resolves]" "initial_state []" 1]
  show ?thesis
    by (simp add: eval_glob_a s0 restarts_def)
qed

text \<open>
  Claim C5, as stated, fails: a root that ends with two separators keeps both.
\<close>

theorem glob_of_counterexample:
  "glob_of ''/a/b//'' = ''/a/b//**/*'' \<and> \<not> single_separator_glob (glob_of ''/a/b//'')"
  by (simp add: single_separator_glob_def glob_of_def endsWith_def)

text \<open>
  Claim C5, amended. For every root the glob is the root, with one separator appended
  when the root does not already end with one, followed by \<open>**/*\<close>. So it ends with a
  separator followed by \<open>**/*\<close>; it ends with exactly one separator before \<open>**/*\<close>
  precisely when the root does not itself end with two separators. The roots \<open>/a/b\<close>
  and \<open>/a/b/\<close> both give \<open>/a/b/**/*\<close>.
\<close>

theorem glob_of_normalized:
  "glob_of root = root @ (if endsWith root ''/'' then [] else ''/'') @ ''**/*'' \<and>
   endsWith (glob_of root) ''/**/*'' \<and>
   single_separator_glob (glob_of root) = (\<not> endsWith root ''//'') \<and>
   glob_of ''/a/b'' = ''/a/b/**/*'' \<and> glob_of ''/a/b/'' = ''/a/b/**/*''"
proof -
  have "glob_of root = root @ (if endsWith root ''/'' then [] else ''/'') @ ''**/*''"
    by (simp add: glob_of_def)
  moreover have "glob_of ''/a/b'' = ''/a/b/**/*''" "glob_of ''/a/b/'' = ''/a/b/**/*''"
    by (simp_all add: glob_of_def endsWith_def)
  ultimately show ?thesis
    using glob_of_suffix [of root] single_separator_iff [of root] by blast
qed

text \<open>
  Claim C6. The list the lookup walks holds the URIs of the configured folders, each
  with a separator at its end, sorted by length; with a cache that is empty or current
  this is the list \<open>sortedWorkspaceFolders\<close> returns. The lookup returns what the host
  resolves the first element of that list to that is a prefix of the normalised URI of
  the folder, and the folder itself when no element is a prefix; that element is a
  shortest prefix among the configured URIs. The lookup leaves the cache current. With
  the folders \<open>/ws\<close> and \<open>/ws/pkg\<close>, the lookup for \<open>/ws/pkg\<close> gives \<open>/ws\<close>.
\<close>

theorem outermost_is_first_prefix:
  assumes "cache_current env s"
  shows "fst (getOuterMostWorkspaceFolder env folder s) =
           (case find (startsWith (with_separator (uri folder))) (sorted_uris env) of
              None \<Rightarrow> Some folder
            | Some element \<Rightarrow> getWorkspaceFolder env element)
       \<and> fst (sortedWorkspaceFolders env s) = sorted_uris env
       \<and> mset (sorted_uris env) =
           mset (map (\<lambda>folder. with_separator (uri folder))
                  (case workspaceFolders env of Some folders \<Rightarrow> folders | None \<Rightarrow> []))
       \<and> sorted (map length (sorted_uris env))
       \<and> with_separator u = (if endsWith u ''/'' then u else u @ ''/'')
       \<and> startsWith a b = (\<exists>r. a = b @ r)
       \<and> (find (startsWith (with_separator (uri folder))) (sorted_uris env) = Some element \<longrightarrow>
            (\<forall>e \<in> set (sorted_uris env).
               startsWith (with_separator (uri folder)) e \<longrightarrow> length element \<le> length e))
       \<and> cache_current env (snd (getOuterMostWorkspaceFolder env folder s))"
proof -
  have a: "fst (getOuterMostWorkspaceFolder env folder s) =
           outermost_loop (getWorkspaceFolder env) (sorted_uris env) folder"
    using sortedWorkspaceFolders_current(1) [OF assms]
    by (auto simp: getOuterMostWorkspaceFolder_def split: prod.splits)
  have b: "cache_current env (snd (getOuterMostWorkspaceFolder env folder s))"
    using sortedWorkspaceFolders_current(2) [OF assms]
    by (auto simp: getOuterMostWorkspaceFolder_def split: prod.splits)
  have c: "find (startsWith (with_separator (uri folder))) (sorted_uris env) = Some element \<longrightarrow>
            (\<forall>e \<in> set (sorted_uris env).
               startsWith (with_separator (uri folder)) e \<longrightarrow> length element \<le> length e)"
    using sorted_find_shortest [OF sorted_uris_sorted [of env]] by blast
  from a b c sortedWorkspaceFolders_current(1) [OF assms] mset_sorted_uris [of env]
    sorted_uris_sorted [of env] with_separator_endsWith [of u] startsWith_iff [of a b]
  show ?thesis
    by (simp only: outermost_loop_find)
qed

theorem outermost_is_first_prefix_witness:
  "cache_current (example_workspace ''any'') activated \<and>
   sorted_uris (example_workspace ''any'') = [''/ws/'', ''/ws/pkg/''] \<and>
   fst (sortedWorkspaceFolders (example_workspace ''any'') activated) = [''/ws/'', ''/ws/pkg/''] \<and>
   fst (getOuterMostWorkspaceFolder (example_workspace ''any'') \<lparr>ref = 1, uri = ''/ws/pkg''\<rparr> activated) =
     Some \<lparr>ref = 0, uri = ''/ws''\<rparr> \<and>
   fst (getOuterMostWorkspaceFolder (example_workspace ''any'') \<lparr>ref = 2, uri = ''/other''\<rparr> activated) =
     Some \<lparr>ref = 2, uri = ''/other''\<rparr>"
proof -
  have h: "cache_current (example_workspace ''any'') activated"
    by (simp add: cache_current_def activated_def)
  from h outermost_is_first_prefix [OF h, of "\<lparr>ref = 1, uri = ''/ws/pkg''\<rparr>" "[]" "[]" "[]" "''/ws/''"]
    outermost_is_first_prefix [OF h, of "\<lparr>ref = 2, uri = ''/other''\<rparr>" "[]" "[]" "[]" "''/ws/''"]
  show ?thesis
    by (simp add: example_sorted example_resolve with_separator_def startsWith_def)
qed

text \<open>
  Claim C7 does not hold of the handler for an array with a hole. \<open>every\<close> does not
  test a hole, so an array whose slots are holes or strings, such as \<open>[ , '/a']\<close>,
  passes the test of the handler although it is not an array of strings. The loop over
  the globs reads each hole as \<open>undefined\<close>: the handler logs nothing about incorrect
  arguments, pushes a rule without a pattern for each tag and each hole, and requests a
  restart. Every argument that is not an array whose slots are holes or strings, a
  mixed array among them, only gets the log message (lemma
  \<open>setRoots_rejects_failed_test\<close>).
\<close>

theorem setRoots_accepts_holes:
  assumes "None \<in> set slots"
  shows "effects (setRoots call (JArray (map (map_option JString) slots)) s) = effects s
       \<and> waiting (setRoots call (JArray (map (map_option JString) slots)) s) call =
           Some (next_object s)
       \<and> count_list
           (clangdDocumentSelector (setRoots call (JArray (map (map_option JString) slots)) s))
           \<lparr>language = Some ''c'', scheme = Some ''file'', pattern = None\<rparr> =
         count_list (clangdDocumentSelector s)
           \<lparr>language = Some ''c'', scheme = Some ''file'', pattern = None\<rparr> +
         count_list slots None"
proof -
  let ?sel = "clangdDocumentSelector s"
  let ?cur = "set_new (map Some (getCurrentRoots ?sel))"
  let ?d = "compareCurrentAndDesiredRoots slots ?sel"
  let ?rule = "\<lparr>language = Some ''c'', scheme = Some ''file'', pattern = None\<rparr>"
  let ?s1 = "s\<lparr>clangdDocumentSelector :=
               reconcileSelectorsAndTargets (toAdds ?d) (toDeletes ?d) ?sel\<rparr>"
  have cur: "None \<notin> set ?cur" by (auto simp: set_set_new)
  have adds: "count_list (toAdds ?d) None = count_list slots None"
    using count_toAdds_compare_loop [OF cur, of "array_map glob_of slots" "[]"]
    by (simp add: compareCurrentAndDesiredRoots_def count_list_array_map_None)
  from assms have "count_list slots None \<noteq> 0" by (simp add: count_list_0_iff)
  with adds have nonempty: "toAdds ?d \<noteq> []" by auto
  have "set (toDeletes ?d) \<subseteq> set ?cur"
    by (simp add: compareCurrentAndDesiredRoots_def toDeletes_current)
  with cur have "None \<notin> set (toDeletes ?d)" by blast
  then have keep: "keeps (toDeletes ?d) ?rule"
    by (auto simp: keeps_def has_pattern_def list_ex_iff)
  have step: "setRoots call (JArray (map (map_option JString) slots)) s =
              restartCLangDSafely_begin call ?s1"
    using nonempty by (simp add: setRoots_def every_strings array_map_string_of Let_def)
  have sel: "count_list (clangdDocumentSelector ?s1) ?rule =
             count_list ?sel ?rule + count_list slots None"
    using keep adds by (simp add: reconcile_eq count_list_filter count_list_new_rules)
  have w: "waiting (restartCLangDSafely_begin call ?s1) call = Some (next_object s)"
    by (simp add: restartCLangDSafely_begin_def Let_def)
  from sel w show ?thesis unfolding step by simp
qed

theorem setRoots_accepts_holes_witness:
  "None \<in> set [None, Some ''/a''] \<and>
   clangdDocumentSelector
     (setRoots 1 (JArray [None, Some (JString ''/a'')]) (initial_state [])) =
     [\<lparr>language = Some ''c'', scheme = Some ''file'', pattern = None\<rparr>,
      \<lparr>language = Some ''cpp'', scheme = Some ''file'', pattern = None\<rparr>,
      \<lparr>language = Some ''c'', scheme = Some ''file'', pattern = Some (GlobString ''/a/**/*'')\<rparr>,
      \<lparr>language = Some ''cpp'', scheme = Some ''file'', pattern = Some (GlobString ''/a/**/*'')\<rparr>] \<and>
   effects (setRoots 1 (JArray [None, Some (JString ''/a'')]) (initial_state [])) = [] \<and>
   waiting (setRoots 1 (JArray [None, Some (JString ''/a'')]) (initial_state [])) 1 = Some 1 \<and>
   restarts
     (restartCLangDSafely_resume 1 [Client Resolves]
       (setRoots 1 (JArray [None, Some (JString ''/a'')]) (initial_state []))) = [1] \<and>
   setRoots 2 (JArray [Some (JString ''not''), Some (JNumber 123)]) (initial_state []) =
     (initial_state [])\<lparr>effects := [(2, LogIncorrectArguments)]\<rparr>"
proof -
  let ?s = "setRoots 1 (JArray [None, Some (JString ''/a'')]) (initial_state [])"
  have h: "None \<in> set [None, Some ''/a'']" by simp
  have d: "compareCurrentAndDesiredRoots [None, Some ''/a''] [] =
           \<lparr>toAdds = [None, Some ''/a/**/*''], toDeletes = []\<rparr>"
    by (simp add: compareCurrentAndDesiredRoots_def array_map_def eval_glob_a set_has_def
        set_delete_def)
  have s: "?s = restartCLangDSafely_begin 1
             ((initial_state [])\<lparr>clangdDocumentSelector :=
                new_rules None @ new_rules (Some ''/a/**/*'')\<rparr>)"
    by (simp add: setRoots_def every_def array_map_def d reconcile_eq initial_state_def)
  have m: "\<nexists>slots. JArray [Some (JString ''not''), Some (JNumber 123)] =
                   JArray (map (map_option JString) slots)"
    by (auto simp: Cons_eq_map_conv Some_eq_map_option)
  have r: "restarts (restartCLangDSafely_resume 1 [Client Resolves] ?s) = [1]"
    unfolding s
    by (simp add: restartCLangDSafely_begin_def restartCLangDSafely_resume_def restarts_def
        initial_state_def Let_def)
  have sel: "clangdDocumentSelector ?s = new_rules None @ new_rules (Some ''/a/**/*'')"
    unfolding s by simp
  from h r sel setRoots_accepts_holes [OF h, of 1 "initial_state []"]
    setRoots_rejects_failed_test [OF m, of 2 "initial_state []"]
  show ?thesis
    by (simp add: initial_state_def new_rules_def)
qed

text \<open>
  Claim C8. \<open>dispose\<close> never throws; a second \<open>dispose\<close> right after the first changes
  nothing and sends no stop request, the first one having sent one exactly when a start
  handle was recorded and the server was running; and \<open>dispose\<close> on a client whose
  server is not running changes nothing.
\<close>

theorem dispose_twice:
  "(\<exists>this1. dispose this = Inr this1 \<and> dispose this1 = Inr this1 \<and>
      stop_requests this1 =
        stop_requests this +
        (if startDisposable this \<noteq> None \<and> server this = Launched then 1 else 0))
   \<and> (server this \<noteq> Launched \<longrightarrow> dispose this = Inr this)"
  by (cases "startDisposable this") (auto simp: dispose_def disposable_dispose_def)

theorem dispose_twice_witness:
  "activate constructed =
     Inr \<lparr>startDisposable = Some StartDisposable, server = Launched, stop_requests = 0\<rparr> \<and>
   dispose \<lparr>startDisposable = Some StartDisposable, server = Launched, stop_requests = 0\<rparr> =
     Inr \<lparr>startDisposable = Some StartDisposable, server = Stopped, stop_requests = 1\<rparr> \<and>
   dispose \<lparr>startDisposable = Some StartDisposable, server = Stopped, stop_requests = 1\<rparr> =
     Inr \<lparr>startDisposable = Some StartDisposable, server = Stopped, stop_requests = 1\<rparr>"
proof -
  have a: "activate constructed =
     Inr \<lparr>startDisposable = Some StartDisposable, server = Launched, stop_requests = 0\<rparr>"
    by (simp add: activate_def constructed_def dispose_def start_def)
  have d: "dispose \<lparr>startDisposable = Some StartDisposable, server = Launched, stop_requests = 0\<rparr> =
     Inr \<lparr>startDisposable = Some StartDisposable, server = Stopped, stop_requests = 1\<rparr>"
    by (simp add: dispose_def disposable_dispose_def)
  from a d
    dispose_twice [of "\<lparr>startDisposable = Some StartDisposable, server = Launched, stop_requests = 0\<rparr>"]
  show ?thesis by auto
qed

text \<open>
  Claim C9 does not hold of the handlers: the configuration handler stops a client,
  awaits the stop, and deletes the registry entry of the folder only when it goes on,
  whereas the handler of removed folders deletes the entry before it awaits. In the
  example workspace a document of folder \<open>/ws\<close> is open and client 0 runs for it. The
  setting changes to \<open>off\<close> and the configuration changes twice: both handlers stop
  client 0 and are suspended with the entry of \<open>/ws\<close> still in the registry. The setting
  changes back to \<open>any\<close>. The first handler goes on, deletes the entry and opens the
  documents again, which starts client 1; the second goes on, deletes the entry of
  client 1 and starts client 2. No handler is suspended any more, and two started
  clients belong to \<open>/ws\<close>, one of them in no registry entry. Each of them was created
  when the registry held no client for the folder.
\<close>

theorem interleaved_configuration_handlers_start_two_clients:
  "extension
     (run [(example_workspace ''any'', OpenAll),
           (example_workspace ''off'', ConfigurationChanged True False),
           (example_workspace ''off'', ConfigurationChanged True False),
           (example_workspace ''any'', ConfigurationChanged True False),
           (example_workspace ''any'', Resumed 0),
           (example_workspace ''any'', Resumed 1)] started) =
     \<lparr>clients = [(\<lparr>ref = 0, uri = ''/ws''\<rparr>, 2)],
      running = [(1, \<lparr>ref = 0, uri = ''/ws''\<rparr>), (2, \<lparr>ref = 0, uri = ''/ws''\<rparr>)],
      next_client = 3,
      sortedWorkspaceFolders_cache = Some [''/ws/'', ''/ws/pkg/'']\<rparr> \<and>
   suspended
     (run [(example_workspace ''any'', OpenAll),
           (example_workspace ''off'', ConfigurationChanged True False),
           (example_workspace ''off'', ConfigurationChanged True False),
           (example_workspace ''any'', ConfigurationChanged True False),
           (example_workspace ''any'', Resumed 0),
           (example_workspace ''any'', Resumed 1)] started) = [] \<and>
   clients_of
     (extension
       (run [(example_workspace ''any'', OpenAll),
             (example_workspace ''off'', ConfigurationChanged True False),
             (example_workspace ''off'', ConfigurationChanged True False),
             (example_workspace ''any'', ConfigurationChanged True False),
             (example_workspace ''any'', Resumed 0),
             (example_workspace ''any'', Resumed 1)] started))
     \<lparr>ref = 0, uri = ''/ws''\<rparr> = [1, 2]"
proof -
  let ?ws = "\<lparr>ref = 0, uri = ''/ws''\<rparr>"
  let ?cache = "Some [''/ws/'', ''/ws/pkg/'']"
  let ?s1 = "\<lparr>clients = [(?ws, 0)], running = [(0, ?ws)], next_client = 1,
              sortedWorkspaceFolders_cache = ?cache\<rparr>"
  let ?s2 = "\<lparr>clients = [(?ws, 0)], running = [], next_client = 1,
              sortedWorkspaceFolders_cache = ?cache\<rparr>"
  let ?s5 = "\<lparr>clients = [(?ws, 1)], running = [(1, ?ws)], next_client = 2,
              sortedWorkspaceFolders_cache = ?cache\<rparr>"
  let ?s6 = "\<lparr>clients = [(?ws, 2)], running = [(1, ?ws), (2, ?ws)], next_client = 3,
              sortedWorkspaceFolders_cache = ?cache\<rparr>"
  let ?k = "ConfigurationLoop ?ws []"
  note defs = didOpenTextDocument_def example_workspace_def getOuterMostWorkspaceFolder_def
    sortedWorkspaceFolders_def sorted_uris_def with_separator_def startsWith_def
    create_and_start_def onDidChangeConfiguration_def client_to_stop_def stop_def Let_def
  have e1: "handle (example_workspace ''any'', OpenAll) started =
            \<lparr>extension = ?s1, suspended = [], next_handler = 0\<rparr>"
    by (simp add: started_def activated_def defs)
  have e2: "handle (example_workspace ''off'', ConfigurationChanged True False)
              \<lparr>extension = ?s1, suspended = [], next_handler = 0\<rparr> =
            \<lparr>extension = ?s2, suspended = [(0, ?k)], next_handler = 1\<rparr>"
    by (simp add: defs)
  have e3: "handle (example_workspace ''off'', ConfigurationChanged True False)
              \<lparr>extension = ?s2, suspended = [(0, ?k)], next_handler = 1\<rparr> =
            \<lparr>extension = ?s2, suspended = [(0, ?k), (1, ?k)], next_handler = 2\<rparr>"
    by (simp add: defs)
  have e4: "handle (example_workspace ''any'', ConfigurationChanged True False)
              \<lparr>extension = ?s2, suspended = [(0, ?k), (1, ?k)], next_handler = 2\<rparr> =
            \<lparr>extension = ?s2, suspended = [(0, ?k), (1, ?k)], next_handler = 2\<rparr>"
    by (simp add: defs)
  have e5: "handle (example_workspace ''any'', Resumed 0)
              \<lparr>extension = ?s2, suspended = [(0, ?k), (1, ?k)], next_handler = 2\<rparr> =
            \<lparr>extension = ?s5, suspended = [(1, ?k)], next_handler = 2\<rparr>"
    by (simp add: defs AList.delete_eq)
  have e6: "handle (example_workspace ''any'', Resumed 1)
              \<lparr>extension = ?s5, suspended = [(1, ?k)], next_handler = 2\<rparr> =
            \<lparr>extension = ?s6, suspended = [], next_handler = 2\<rparr>"
    by (simp add: defs AList.delete_eq)
  show ?thesis
    by (simp only: run_def fold_simps o_apply e1 e2 e3 e4 e5 e6) (simp add: clients_of_def)
qed

text \<open>
  Claim C10. When the glob of \<open>root\<close> is not among the managed globs of the live
  selector, \<open>toAdds\<close> holds that glob as often as the list of roots generates it; for
  the list with \<open>root\<close> twice, \<open>toAdds\<close> is that glob twice and applying the delta
  appends the pair of rules twice, four rules, to the selector.
\<close>

theorem duplicate_roots_added_twice:
  assumes "glob_of root \<notin> set (getCurrentRoots selectors)"
  shows "count_list (toAdds (compareCurrentAndDesiredRoots (map Some newRoots) selectors))
           (Some (glob_of root)) =
           count_list (map glob_of newRoots) (glob_of root)
       \<and> compareCurrentAndDesiredRoots [Some root, Some root] selectors =
           \<lparr>toAdds = [Some (glob_of root), Some (glob_of root)],
            toDeletes = set_new (map Some (getCurrentRoots selectors))\<rparr>
       \<and> reconcile_step [Some root, Some root] selectors =
           fold delete_while (set_new (map Some (getCurrentRoots selectors))) selectors @
           new_rules (Some (glob_of root)) @ new_rules (Some (glob_of root))"
proof -
  let ?g = "Some (glob_of root)"
  let ?cur = "set_new (map Some (getCurrentRoots selectors))"
  from assms have notin: "?g \<notin> set ?cur" by (auto simp: set_set_new)
  have c: "count_list (toAdds (compareCurrentAndDesiredRoots (map Some newRoots) selectors)) ?g =
           count_list (map glob_of newRoots) (glob_of root)"
    using count_toAdds_compare_loop [OF notin, of "map Some (map glob_of newRoots)" "[]"]
    by (simp add: compareCurrentAndDesiredRoots_def Let_def count_list_map_Some del: map_map)
  from notin have rm: "removeAll ?g ?cur = ?cur" by simp
  have d: "compareCurrentAndDesiredRoots [Some root, Some root] selectors =
           \<lparr>toAdds = [?g, ?g], toDeletes = ?cur\<rparr>"
    using notin
    by (simp add: compareCurrentAndDesiredRoots_def array_map_def Let_def set_has_def set_delete_def)
  have r: "reconcile_step [Some root, Some root] selectors =
           fold delete_while ?cur selectors @ new_rules ?g @ new_rules ?g"
    by (simp add: reconcile_step_def d Let_def reconcileSelectorsAndTargets_def push_all_append)
  from c d r show ?thesis by simp
qed

theorem duplicate_roots_added_twice_witness:
  "glob_of ''/a'' \<notin> set (getCurrentRoots []) \<and>
   toAdds (compareCurrentAndDesiredRoots [Some ''/a'', Some ''/a''] []) =
     [Some ''/a/**/*'', Some ''/a/**/*''] \<and>
   reconcile_step [Some ''/a'', Some ''/a''] [] =
     [\<lparr>language = Some ''c'', scheme = Some ''file'', pattern = Some (GlobString ''/a/**/*'')\<rparr>,
      \<lparr>language = Some ''cpp'', scheme = Some ''file'', pattern = Some (GlobString ''/a/**/*'')\<rparr>,
      \<lparr>language = Some ''c'', scheme = Some ''file'', pattern = Some (GlobString ''/a/**/*'')\<rparr>,
      \<lparr>language = Some ''cpp'', scheme = Some ''file'', pattern = Some (GlobString ''/a/**/*'')\<rparr>]"
proof -
  have h: "glob_of ''/a'' \<notin> set (getCurrentRoots [])" by simp
  from h duplicate_roots_added_twice [OF h, of "[''/a'', ''/a'']"] show ?thesis
    by (simp add: eval_glob_a set_new_def new_rules_def)
qed

end
